theory Spec2Isabelle
  imports Main "HOL-Library.Word"
begin

unbundle bit_operations_syntax

section \<open>Constants of shmbuf.c\<close>

definition SHMBUF_CHUNK_MAGIC_CODE :: nat where
  "SHMBUF_CHUNK_MAGIC_CODE = 0xdeadbeaf"

definition SHMBUF_CHUNKSZ_MIN_BIT :: nat where
  "SHMBUF_CHUNKSZ_MIN_BIT = 7"

definition SHMBUF_CHUNKSZ_MAX_BIT :: nat where
  "SHMBUF_CHUNKSZ_MAX_BIT = 32"

text \<open>
  Layout of \<^verbatim>\<open>shmBufferChunk\<close> on an LP64 target (the only one PG-Strom builds for):
  \<^verbatim>\<open>chain.prev\<close> at 0, \<^verbatim>\<open>chain.next\<close> at 8, \<^verbatim>\<open>required\<close> at 16, \<^verbatim>\<open>mclass\<close> at 24,
  \<^verbatim>\<open>magic_head\<close> at 28, \<^verbatim>\<open>seg\<close> at 32 and \<^verbatim>\<open>data\<close> at 40, which is
  \<^verbatim>\<open>offsetof(shmBufferChunk, data)\<close>.
\<close>

definition off_prev :: nat where "off_prev = 0"
definition off_next :: nat where "off_next = 8"
definition off_required :: nat where "off_required = 16"
definition off_mclass :: nat where "off_mclass = 24"
definition off_magic_head :: nat where "off_magic_head = 28"
definition off_seg :: nat where "off_seg = 32"
definition off_data :: nat where "off_data = 40"

section \<open>Byte-addressed memory\<close>

text \<open>
  The reserved address range is a map from addresses to bytes. Integers are stored
  little-endian; a load returns the unsigned value, a store keeps the low bytes.
\<close>

type_synonym memory = "nat \<Rightarrow> 8 word"

fun load_le :: "memory \<Rightarrow> nat \<Rightarrow> nat \<Rightarrow> nat" where
  "load_le m a 0 = 0"
| "load_le m a (Suc n) = unat (m a) + 256 * load_le m (Suc a) n"

fun store_le :: "memory \<Rightarrow> nat \<Rightarrow> nat \<Rightarrow> nat \<Rightarrow> memory" where
  "store_le m a 0 v = m"
| "store_le m a (Suc n) v = store_le (m(a := of_nat v)) (Suc a) n (v div 256)"

definition load32 :: "memory \<Rightarrow> nat \<Rightarrow> nat" where
  "load32 m a = load_le m a (Suc (Suc (Suc (Suc 0))))"

definition store32 :: "memory \<Rightarrow> nat \<Rightarrow> nat \<Rightarrow> memory" where
  "store32 m a v = store_le m a (Suc (Suc (Suc (Suc 0)))) v"

definition load64 :: "memory \<Rightarrow> nat \<Rightarrow> nat" where
  "load64 m a = load_le m a (Suc (Suc (Suc (Suc (Suc (Suc (Suc (Suc 0))))))))"

definition store64 :: "memory \<Rightarrow> nat \<Rightarrow> nat \<Rightarrow> memory" where
  "store64 m a v = store_le m a (Suc (Suc (Suc (Suc (Suc (Suc (Suc (Suc 0)))))))) v"

definition memset :: "memory \<Rightarrow> nat \<Rightarrow> 8 word \<Rightarrow> nat \<Rightarrow> memory" where
  "memset m a c n = (\<lambda>x. if a \<le> x \<and> x < a + n then c else m x)"

subsection \<open>Loads after stores\<close>

lemma store_le_outside: "x < a \<or> a + n \<le> x \<Longrightarrow> store_le m a n v x = m x"
  by (induction n arbitrary: m a v) auto

lemma load_le_eqI:
  "(\<And>x. a \<le> x \<Longrightarrow> x < a + n \<Longrightarrow> m x = m' x) \<Longrightarrow> load_le m a n = load_le m' a n"
  by (induction n arbitrary: a) auto

lemma load_le_store_le_disjoint:
  "b + k \<le> a \<or> a + n \<le> b \<Longrightarrow> load_le (store_le m a n v) b k = load_le m b k"
  by (rule load_le_eqI) (auto simp: store_le_outside)

lemma load_le_store_le_same: "load_le (store_le m a n v) a n = v mod 256 ^ n"
proof (induction n arbitrary: m a v)
  case 0
  show ?case by simp
next
  case (Suc n)
  have "store_le (m(a := of_nat v)) (Suc a) n (v div 256) a = (of_nat v :: 8 word)"
    by (simp add: store_le_outside)
  then have "load_le (store_le m a (Suc n) v) a (Suc n) = v mod 256 + 256 * ((v div 256) mod 256 ^ n)"
    by (simp add: Suc.IH unat_of_nat)
  also have "\<dots> = v mod 256 ^ Suc n"
    by (simp add: mod_mult2_eq)
  finally show ?case .
qed

lemma load_le_memset_disjoint:
  "b + k \<le> a \<or> a + n \<le> b \<Longrightarrow> load_le (memset m a c n) b k = load_le m b k"
  by (rule load_le_eqI) (auto simp: memset_def)

lemma load_le_zero: "(\<And>x. a \<le> x \<Longrightarrow> x < a + n \<Longrightarrow> m x = 0) \<Longrightarrow> load_le m a n = 0"
  by (induction n arbitrary: a) auto

lemma load_le_memset_inside:
  "a \<le> b \<Longrightarrow> b + k \<le> a + n \<Longrightarrow> load_le (memset m a 0 n) b k = 0"
  by (rule load_le_zero) (auto simp: memset_def)

lemma load32_store32_same: "load32 (store32 m a v) a = v mod 2 ^ 32"
  unfolding load32_def store32_def by (simp only: load_le_store_le_same) simp

lemma load64_store64_same: "load64 (store64 m a v) a = v mod 2 ^ 64"
  unfolding load64_def store64_def by (simp only: load_le_store_le_same) simp

lemma load32_store32_disjoint:
  "a + 4 \<le> b \<or> b + 4 \<le> a \<Longrightarrow> load32 (store32 m b v) a = load32 m a"
  unfolding load32_def store32_def by (rule load_le_store_le_disjoint) auto

lemma load32_store64_disjoint:
  "a + 4 \<le> b \<or> b + 8 \<le> a \<Longrightarrow> load32 (store64 m b v) a = load32 m a"
  unfolding load32_def store64_def by (rule load_le_store_le_disjoint) auto

lemma load64_store32_disjoint:
  "a + 8 \<le> b \<or> b + 4 \<le> a \<Longrightarrow> load64 (store32 m b v) a = load64 m a"
  unfolding load64_def store32_def by (rule load_le_store_le_disjoint) auto

lemma load64_store64_disjoint:
  "a + 8 \<le> b \<or> b + 8 \<le> a \<Longrightarrow> load64 (store64 m b v) a = load64 m a"
  unfolding load64_def store64_def by (rule load_le_store_le_disjoint) auto

lemma load32_memset_disjoint:
  "a + 4 \<le> b \<or> b + n \<le> a \<Longrightarrow> load32 (memset m b c n) a = load32 m a"
  unfolding load32_def by (rule load_le_memset_disjoint) auto

lemma load64_memset_disjoint:
  "a + 8 \<le> b \<or> b + n \<le> a \<Longrightarrow> load64 (memset m b c n) a = load64 m a"
  unfolding load64_def by (rule load_le_memset_disjoint) auto

lemma load32_memset_inside:
  "b \<le> a \<Longrightarrow> a + 4 \<le> b + n \<Longrightarrow> load32 (memset m b 0 n) a = 0"
  unfolding load32_def by (rule load_le_memset_inside) auto

lemma load64_memset_inside:
  "b \<le> a \<Longrightarrow> a + 8 \<le> b + n \<Longrightarrow> load64 (memset m b 0 n) a = 0"
  unfolding load64_def by (rule load_le_memset_inside) auto

lemmas load_store_simps =
  load32_store32_same load64_store64_same load32_store32_disjoint load32_store64_disjoint
  load64_store32_disjoint load64_store64_disjoint load32_memset_disjoint load64_memset_disjoint
  load32_memset_inside load64_memset_inside

section \<open>Data model\<close>

text \<open>
  \<^verbatim>\<open>shmBufferSegment\<close>. The \<^verbatim>\<open>chain\<close> link of a segment is its membership in the
  directory's two lists below. \<^verbatim>\<open>free_chunks\<close> has one list per size class, indexed by
  \<^verbatim>\<open>mclass - SHMBUF_CHUNKSZ_MIN_BIT\<close>; a list holds the addresses of its chunks, head first.
\<close>

record shmBufferSegment =
  revision :: "32 word"
  num_actives :: "32 word"
  free_chunks :: "nat list list"

text \<open>\<^verbatim>\<open>shmBufferLocalMap\<close>: the per-process entry of one slot.\<close>

record shmBufferLocalMap =
  mutex :: bool
  map_revision :: "32 word"
  is_attached :: bool

text \<open>
  The static variables set once at start-up, and whether \<^verbatim>\<open>Assert\<close> is compiled in
  (PostgreSQL's \<^verbatim>\<open>USE_ASSERT_CHECKING\<close>; without it \<^verbatim>\<open>Assert(c)\<close> expands to nothing).
\<close>

record config =
  shmbuf_segment_size :: nat
  shmbuf_num_logical_segment :: nat
  shmbuf_segment_vaddr_head :: nat
  shmBufSegHead :: nat
  assert_checking :: bool

definition shmbuf_segment_vaddr_tail :: "config \<Rightarrow> nat" where
  "shmbuf_segment_vaddr_tail cfg =
     shmbuf_segment_vaddr_head cfg + shmbuf_segment_size cfg * shmbuf_num_logical_segment cfg"

text \<open>
  \<^verbatim>\<open>shmBufferSegmentHead\<close> (shared), the local maps (per process), the bytes of the
  reserved range, and the names of the POSIX shared-memory objects that exist, each a
  pair of slot index and generation \<^verbatim>\<open>revision >> 1\<close> as \<^verbatim>\<open>SHMBUF_SEGMENT_FILENAME\<close>
  prints them.
\<close>

record state =
  lock :: bool
  active_segment_list :: "nat list"
  free_segment_list :: "nat list"
  segments :: "shmBufferSegment list"
  local_maps :: "shmBufferLocalMap list"
  mem :: memory
  shm_files :: "(nat \<times> 32 word) list"

text \<open>
  What the operating system answers to the system calls of one operation: whether each
  call succeeds, and how often \<^verbatim>\<open>fallocate\<close> is interrupted before its final answer.
\<close>

record os_env =
  munmap_ok :: bool
  mmap_none_ok :: bool
  shm_open_ok :: bool
  fallocate_eintr :: nat
  fallocate_ok :: bool
  mmap_ok :: bool
  shm_unlink_ok :: bool

datatype error =
    OutOfMemory
  | TooLarge
  | ElogError
  | ElogFatal
  | AssertFailure
  | StuckSpinLock
  | OutOfBounds
  | EmptyListPop
  | MemoryFault

definition SHMBUF_SEGMENT_EXISTS :: "32 word \<Rightarrow> bool" where
  "SHMBUF_SEGMENT_EXISTS rv = (rv AND 1 \<noteq> 0)"

definition SHMBUF_SEGMENT_FILENAME :: "nat \<Rightarrow> 32 word \<Rightarrow> nat \<times> 32 word" where
  "SHMBUF_SEGMENT_FILENAME segment_id rv = (segment_id, drop_bit 1 rv)"

definition shmBufferSegmentMmapPtr :: "config \<Rightarrow> nat \<Rightarrow> nat" where
  "shmBufferSegmentMmapPtr cfg segment_id =
     shmbuf_segment_vaddr_head cfg + segment_id * shmbuf_segment_size cfg"

text \<open>
  The \<open>n\<close> bytes at \<open>addr\<close> lie in the mapping of one segment. A chunk is never larger
  than its segment, so an access that the allocator makes for a chunk and that leaves
  the segment of the chunk is outside every object the chunk belongs to: C leaves it
  undefined. On the target the bytes below the reserved range and the slots that hold
  no segment are not mapped, the access raises \<^verbatim>\<open>SIGSEGV\<close> or \<^verbatim>\<open>SIGBUS\<close>, the handler
  finds nothing to attach and the process aborts. The model stops at such an access
  with \<open>MemoryFault\<close>.
\<close>

definition in_segment :: "config \<Rightarrow> nat \<Rightarrow> nat \<Rightarrow> nat \<Rightarrow> bool" where
  "in_segment cfg segment_id addr n =
     (shmBufferSegmentMmapPtr cfg segment_id \<le> addr \<and>
      addr + n \<le> shmBufferSegmentMmapPtr cfg segment_id + shmbuf_segment_size cfg)"

text \<open>
  Address of \<^verbatim>\<open>&shmBufSegHead->segments[segment_id]\<close> and of one of its list heads
  (\<^verbatim>\<open>segments\<close> starts at offset 40, a segment takes 440 bytes, \<^verbatim>\<open>free_chunks\<close> starts
  at offset 24 in it, a list head takes 16 bytes).
\<close>

definition segment_addr :: "config \<Rightarrow> nat \<Rightarrow> nat" where
  "segment_addr cfg segment_id = shmBufSegHead cfg + 40 + segment_id * 440"

definition free_chunks_addr :: "config \<Rightarrow> nat \<Rightarrow> nat \<Rightarrow> nat" where
  "free_chunks_addr cfg segment_id mindex = segment_addr cfg segment_id + 24 + mindex * 16"

section \<open>The fault handler\<close>

datatype handler_result = Resumed | NormalCrash | HandlerAbort | HandlerOutOfBounds | HandlerStuck

definition set_lmap :: "state \<Rightarrow> nat \<Rightarrow> shmBufferLocalMap \<Rightarrow> state" where
  "set_lmap s segment_id lmap = s\<lparr>local_maps := (local_maps s)[segment_id := lmap]\<rparr>"

definition set_seg :: "state \<Rightarrow> nat \<Rightarrow> shmBufferSegment \<Rightarrow> state" where
  "set_seg s segment_id seg = s\<lparr>segments := (segments s)[segment_id := seg]\<rparr>"

text \<open>
  The part of \<^verbatim>\<open>shmBufferAttachSegmentOnDemand\<close> after the local mutex is taken and a
  stale mapping, if any, is gone: open the existing object and map it.
\<close>

definition attach_open_and_map ::
  "os_env \<Rightarrow> state \<Rightarrow> nat \<Rightarrow> 32 word \<Rightarrow> handler_result \<times> state" where
  "attach_open_and_map os s segment_id rv =
     (let lmap = local_maps s ! segment_id;
          namebuf = SHMBUF_SEGMENT_FILENAME segment_id rv in
      if \<not> (shm_open_ok os \<and> namebuf \<in> set (shm_files s))
      then (NormalCrash, set_lmap s segment_id (lmap\<lparr>mutex := False\<rparr>))
      else if \<not> mmap_ok os
      then (NormalCrash,
            set_lmap (if shm_unlink_ok os
                      then s\<lparr>shm_files := removeAll namebuf (shm_files s)\<rparr> else s)
              segment_id (lmap\<lparr>mutex := False\<rparr>))
      else (Resumed, set_lmap s segment_id (lmap\<lparr>mutex := False\<rparr>)))"

definition shmBufferAttachSegmentOnDemand ::
  "config \<Rightarrow> os_env \<Rightarrow> state \<Rightarrow> nat \<Rightarrow> handler_result \<times> state" where
  "shmBufferAttachSegmentOnDemand cfg os s fault_addr =
     (if shmBufSegHead cfg \<noteq> 0 \<and>
         shmbuf_segment_vaddr_head cfg \<le> fault_addr \<and>
         fault_addr < shmbuf_segment_vaddr_tail cfg
      then
        let segment_id = (fault_addr - shmbuf_segment_vaddr_head cfg)
                           div shmbuf_segment_size cfg in
        if assert_checking cfg \<and> \<not> segment_id < shmbuf_num_logical_segment cfg
        then (HandlerAbort, s)
        else if \<not> (segment_id < length (segments s) \<and> segment_id < length (local_maps s))
        then (HandlerOutOfBounds, s)
        else
          let rv = revision (segments s ! segment_id);
              lmap = local_maps s ! segment_id in
          if \<not> SHMBUF_SEGMENT_EXISTS rv then (NormalCrash, s)
          else if mutex lmap then (HandlerStuck, s)
          else
            let lmap1 = lmap\<lparr>mutex := True\<rparr> in
            if is_attached lmap1
            then
              if map_revision lmap1 = rv
              then (NormalCrash, set_lmap s segment_id (lmap1\<lparr>mutex := False\<rparr>))
              else if \<not> munmap_ok os
              then (NormalCrash, set_lmap s segment_id (lmap1\<lparr>mutex := False\<rparr>))
              else attach_open_and_map os
                     (set_lmap s segment_id (lmap1\<lparr>is_attached := False\<rparr>)) segment_id rv
            else attach_open_and_map os (set_lmap s segment_id lmap1) segment_id rv
      else (NormalCrash, s))"

section \<open>The handler leaves the local map entry unattached\<close>

lemma attach_open_and_map_lmap:
  assumes "attach_open_and_map os s segment_id rv = (Resumed, s')"
    and "segment_id < length (local_maps s)"
  shows "local_maps s' ! segment_id = (local_maps s ! segment_id)\<lparr>mutex := False\<rparr>"
  using assms
  by (auto simp: attach_open_and_map_def set_lmap_def Let_def split: if_splits)

text \<open>
  C1. The claim says that a successful on-demand attach leaves the local map entry
  with \<open>is_attached = true\<close> and the revision read from the slot. The handler does
  neither: after every successful attach the entry has \<open>is_attached = false\<close> and the
  revision it had before the fault.
\<close>

theorem attach_on_demand_leaves_entry_unattached:
  assumes "shmBufferAttachSegmentOnDemand cfg os s fault_addr = (Resumed, s')"
  shows "\<not> is_attached (local_maps s' !
             ((fault_addr - shmbuf_segment_vaddr_head cfg) div shmbuf_segment_size cfg))
       \<and> map_revision (local_maps s' !
             ((fault_addr - shmbuf_segment_vaddr_head cfg) div shmbuf_segment_size cfg))
         = map_revision (local_maps s !
             ((fault_addr - shmbuf_segment_vaddr_head cfg) div shmbuf_segment_size cfg))"
  using assms
  by (auto simp: shmBufferAttachSegmentOnDemand_def Let_def set_lmap_def
           split: if_splits dest!: attach_open_and_map_lmap)


section \<open>Chunk headers in memory\<close>

definition chunk_required :: "memory \<Rightarrow> nat \<Rightarrow> nat" where
  "chunk_required m chunk = load64 m (chunk + off_required)"

definition chunk_mclass :: "memory \<Rightarrow> nat \<Rightarrow> nat" where
  "chunk_mclass m chunk = load32 m (chunk + off_mclass)"

definition SHMBUF_CHUNK_MAGIC_HEAD :: "memory \<Rightarrow> nat \<Rightarrow> nat" where
  "SHMBUF_CHUNK_MAGIC_HEAD m chunk = load32 m (chunk + off_magic_head)"

text \<open>
  The address of the trailing guard, \<^verbatim>\<open>chunk->data + chunk->required\<close>: pointer
  arithmetic on a 64-bit target, so the sum wraps at \<open>2 ^ 64\<close>.
\<close>

definition magic_tail_addr :: "nat \<Rightarrow> nat \<Rightarrow> nat" where
  "magic_tail_addr chunk required = (chunk + off_data + required) mod 2 ^ 64"

definition SHMBUF_CHUNK_MAGIC_TAIL :: "memory \<Rightarrow> nat \<Rightarrow> nat" where
  "SHMBUF_CHUNK_MAGIC_TAIL m chunk = load32 m (magic_tail_addr chunk (chunk_required m chunk))"

definition SHMBUF_CHUNK_CHECK_MAGIC :: "memory \<Rightarrow> nat \<Rightarrow> bool" where
  "SHMBUF_CHUNK_CHECK_MAGIC m chunk =
     (SHMBUF_CHUNK_MAGIC_HEAD m chunk = SHMBUF_CHUNK_MAGIC_CODE \<and>
      SHMBUF_CHUNK_MAGIC_TAIL m chunk = SHMBUF_CHUNK_MAGIC_CODE)"

text \<open>
  The lists are PostgreSQL's \<^verbatim>\<open>dlist\<close> (lib/ilist.h, not part of this repository): a
  list is the sequence of its nodes, and a node that is on a list has non-null
  \<^verbatim>\<open>prev\<close> and \<^verbatim>\<open>next\<close>. shmbuf.c reads the two pointers of a chunk only to test them
  against NULL, so a push stores the address of the list head in both; a delete or pop
  leaves the node's own pointers as they are, as \<^verbatim>\<open>dlist_delete\<close> does.
\<close>

definition chain_link :: "memory \<Rightarrow> nat \<Rightarrow> nat \<Rightarrow> memory" where
  "chain_link m node head_addr =
     store64 (store64 m (node + off_prev) head_addr) (node + off_next) head_addr"

definition chain_is_linked :: "memory \<Rightarrow> nat \<Rightarrow> bool" where
  "chain_is_linked m node = (load64 m (node + off_prev) \<noteq> 0 \<and> load64 m (node + off_next) \<noteq> 0)"

definition dlist_push_tail :: "nat list list \<Rightarrow> nat \<Rightarrow> nat \<Rightarrow> nat list list" where
  "dlist_push_tail fl mindex node = fl[mindex := fl ! mindex @ [node]]"

definition dlist_push_head :: "nat list list \<Rightarrow> nat \<Rightarrow> nat \<Rightarrow> nat list list" where
  "dlist_push_head fl mindex node = fl[mindex := node # fl ! mindex]"

definition dlist_delete :: "nat list list \<Rightarrow> nat \<Rightarrow> nat list list" where
  "dlist_delete fl node = map (remove1 node) fl"

text \<open>
  A fresh free chunk, as the segment initialisation and the split write it: the header
  zeroed, the class and the leading guard set, the chunk pushed on a free list.
\<close>

definition chunk_init_free :: "memory \<Rightarrow> nat \<Rightarrow> nat \<Rightarrow> nat \<Rightarrow> memory" where
  "chunk_init_free m chunk mclass head_addr =
     chain_link
       (store32 (store32 (memset m chunk 0 off_data) (chunk + off_mclass) mclass)
          (chunk + off_magic_head) SHMBUF_CHUNK_MAGIC_CODE)
       chunk head_addr"

section \<open>Segment creation and drop\<close>

definition num_classes :: nat where
  "num_classes = SHMBUF_CHUNKSZ_MAX_BIT - SHMBUF_CHUNKSZ_MIN_BIT + 1"

text \<open>Lines 286-298: pop a slot from the free list, under the directory lock.\<close>

definition create_pick :: "state \<Rightarrow> (error + nat) \<times> state" where
  "create_pick s =
     (if lock s then (Inl StuckSpinLock, s)
      else case free_segment_list s of
             [] \<Rightarrow> (Inl OutOfMemory, s\<lparr>lock := False\<rparr>)
           | segment_id # rest \<Rightarrow>
               (Inr segment_id, s\<lparr>lock := False, free_segment_list := rest\<rparr>))"

text \<open>Lines 314-325: a ghost mapping of an earlier generation is unmapped first.\<close>

definition create_unmap_ghost :: "os_env \<Rightarrow> state \<Rightarrow> nat \<Rightarrow> error option \<times> state" where
  "create_unmap_ghost os s segment_id =
     (let lmap = local_maps s ! segment_id in
      if is_attached lmap
      then if \<not> munmap_ok os then (Some ElogFatal, s)
           else if \<not> mmap_none_ok os then (Some ElogFatal, s)
           else (None, set_lmap s segment_id (lmap\<lparr>is_attached := False\<rparr>))
      else (None, s))"

text \<open>The \<^verbatim>\<open>fallocate\<close> loop of lines 334-341: \<^verbatim>\<open>EINTR\<close> repeats the call.\<close>

fun fallocate_loop :: "nat \<Rightarrow> bool \<Rightarrow> bool" where
  "fallocate_loop 0 ok = ok"
| "fallocate_loop (Suc n) ok = fallocate_loop n ok"

definition shm_unlink :: "os_env \<Rightarrow> state \<Rightarrow> nat \<times> 32 word \<Rightarrow> state" where
  "shm_unlink os s namebuf =
     (if shm_unlink_ok os then s\<lparr>shm_files := removeAll namebuf (shm_files s)\<rparr> else s)"

text \<open>
  Lines 330-352: create the object, size it, map it. A new object sized by
  \<^verbatim>\<open>fallocate\<close> reads as zeros.
\<close>

definition create_backing ::
  "config \<Rightarrow> os_env \<Rightarrow> state \<Rightarrow> nat \<Rightarrow> 32 word \<Rightarrow> error option \<times> state" where
  "create_backing cfg os s segment_id rv =
     (let namebuf = SHMBUF_SEGMENT_FILENAME segment_id rv in
      if \<not> shm_open_ok os then (Some ElogError, s)
      else
        let s1 = s\<lparr>shm_files := List.insert namebuf (shm_files s)\<rparr> in
        if \<not> fallocate_loop (fallocate_eintr os) (fallocate_ok os)
        then (Some ElogError, shm_unlink os s1 namebuf)
        else if \<not> mmap_ok os
        then (Some ElogError, shm_unlink os s1 namebuf)
        else (None, s1\<lparr>mem := memset (mem s1) (shmBufferSegmentMmapPtr cfg segment_id) 0
                                   (shmbuf_segment_size cfg)\<rparr>))"

text \<open>
  Lines 361-379: tile the segment with free chunks, from the largest class down.
\<close>

lemma segment_fill_measure:
  "0 < p \<Longrightarrow> h + p \<le> t \<Longrightarrow> t + k - (h + p) < t + k - (h::nat)"
  by arith

function segment_fill ::
  "config \<Rightarrow> nat \<Rightarrow> nat list list \<Rightarrow> memory \<Rightarrow> nat \<Rightarrow> nat \<Rightarrow> nat \<Rightarrow> nat list list \<times> memory" where
  "segment_fill cfg segment_id fl m head_ptr tail_ptr mclass =
     (if mclass \<ge> SHMBUF_CHUNKSZ_MIN_BIT
      then if head_ptr + 2 ^ mclass > tail_ptr
           then segment_fill cfg segment_id fl m head_ptr tail_ptr (mclass - 1)
           else segment_fill cfg segment_id
                  (dlist_push_tail fl (mclass - SHMBUF_CHUNKSZ_MIN_BIT) head_ptr)
                  (chunk_init_free m head_ptr mclass
                     (free_chunks_addr cfg segment_id (mclass - SHMBUF_CHUNKSZ_MIN_BIT)))
                  (head_ptr + 2 ^ mclass) tail_ptr mclass
      else (fl, m))"
  by pat_completeness auto
termination
proof (relation "measure (\<lambda>(cfg, segment_id, fl, m, head_ptr, tail_ptr, mclass).
                            (tail_ptr - head_ptr) + mclass)", goal_cases)
  case 1
  show ?case by simp
next
  case (2 cfg segment_id fl m head_ptr tail_ptr mclass)
  then show ?case by (simp add: SHMBUF_CHUNKSZ_MIN_BIT_def)
next
  case (3 cfg segment_id fl m head_ptr tail_ptr mclass)
  then show ?case by (auto simp: not_less intro!: segment_fill_measure)
qed

declare segment_fill.simps [simp del]

text \<open>Lines 357-385: the free lists, the active count, the local map, the revision.\<close>

definition create_init :: "config \<Rightarrow> state \<Rightarrow> nat \<Rightarrow> (error + nat) \<times> state" where
  "create_init cfg s segment_id =
     (let seg = segments s ! segment_id;
          lmap = local_maps s ! segment_id;
          mmap_ptr = shmBufferSegmentMmapPtr cfg segment_id;
          (fl, m) = segment_fill cfg segment_id (replicate num_classes []) (mem s)
                      mmap_ptr (mmap_ptr + shmbuf_segment_size cfg) SHMBUF_CHUNKSZ_MAX_BIT;
          rv = revision seg + 1;
          s1 = set_lmap
                 (set_seg (s\<lparr>mem := m\<rparr>) segment_id
                    (seg\<lparr>free_chunks := fl, num_actives := 0, revision := rv\<rparr>))
                 segment_id (lmap\<lparr>is_attached := True, map_revision := rv\<rparr>) in
      if assert_checking cfg \<and> \<not> SHMBUF_SEGMENT_EXISTS rv
      then (Inl AssertFailure, s1)
      else (Inr segment_id, s1))"

definition shmBufferCreateSegment :: "config \<Rightarrow> os_env \<Rightarrow> state \<Rightarrow> (error + nat) \<times> state" where
  "shmBufferCreateSegment cfg os s =
     (case create_pick s of
        (Inl e, s1) \<Rightarrow> (Inl e, s1)
      | (Inr segment_id, s1) \<Rightarrow>
          if \<not> (segment_id < length (segments s1) \<and> segment_id < length (local_maps s1))
          then (Inl OutOfBounds, s1)
          else
            let rv = revision (segments s1 ! segment_id) in
            if assert_checking cfg \<and> SHMBUF_SEGMENT_EXISTS rv
            then (Inl AssertFailure, s1)
            else if assert_checking cfg \<and> \<not> segment_id < shmbuf_num_logical_segment cfg
            then (Inl AssertFailure, s1)
            else case create_unmap_ghost os s1 segment_id of
                   (Some e, s2) \<Rightarrow> (Inl e, s2)
                 | (None, s2) \<Rightarrow>
                     (case create_backing cfg os s2 segment_id rv of
                        (Some e, s3) \<Rightarrow> (Inl e, s3)
                      | (None, s3) \<Rightarrow> create_init cfg s3 segment_id))"

text \<open>
  \<^verbatim>\<open>shmBufferDropSegment\<close>: the revision is advanced first, then the local mapping and
  the object go. Opening without \<^verbatim>\<open>O_CREAT\<close> needs the object to exist.
\<close>

definition shmBufferDropSegment ::
  "config \<Rightarrow> os_env \<Rightarrow> state \<Rightarrow> nat \<Rightarrow> error option \<times> state" where
  "shmBufferDropSegment cfg os s segment_id =
     (if assert_checking cfg \<and> \<not> segment_id < shmbuf_num_logical_segment cfg
      then (Some AssertFailure, s)
      else if \<not> (segment_id < length (segments s) \<and> segment_id < length (local_maps s))
      then (Some OutOfBounds, s)
      else
        let seg = segments s ! segment_id;
            lmap = local_maps s ! segment_id;
            rv = revision seg;
            s1 = set_seg s segment_id (seg\<lparr>revision := rv + 1\<rparr>);
            namebuf = SHMBUF_SEGMENT_FILENAME segment_id rv in
        if is_attached lmap \<and> \<not> munmap_ok os then (Some ElogFatal, s1)
        else if is_attached lmap \<and> \<not> mmap_none_ok os then (Some ElogFatal, s1)
        else
          let s2 = (if is_attached lmap
                    then set_lmap s1 segment_id (lmap\<lparr>is_attached := False\<rparr>) else s1) in
          if \<not> (shm_open_ok os \<and> namebuf \<in> set (shm_files s2)) then (Some ElogFatal, s2)
          else if \<not> shm_unlink_ok os then (Some ElogFatal, s2)
          else (None, s2\<lparr>shm_files := removeAll namebuf (shm_files s2)\<rparr>))"

text \<open>
  \<^verbatim>\<open>pgstrom_startup_shmbuf\<close> in the postmaster: the directory zeroed, every slot on the
  free list in index order, every local map entry unattached, then one segment created
  ahead of use (and put on neither list).
\<close>

definition startup_directory :: "config \<Rightarrow> memory \<Rightarrow> state" where
  "startup_directory cfg m =
     \<lparr>lock = False,
      active_segment_list = [],
      free_segment_list = [0..<shmbuf_num_logical_segment cfg],
      segments = replicate (shmbuf_num_logical_segment cfg)
                   \<lparr>revision = 0, num_actives = 0, free_chunks = replicate num_classes []\<rparr>,
      local_maps = replicate (shmbuf_num_logical_segment cfg)
                     \<lparr>mutex = False, map_revision = 0, is_attached = False\<rparr>,
      mem = m,
      shm_files = []\<rparr>"

definition pgstrom_startup_shmbuf :: "config \<Rightarrow> os_env \<Rightarrow> memory \<Rightarrow> (error + nat) \<times> state" where
  "pgstrom_startup_shmbuf cfg os m = shmBufferCreateSegment cfg os (startup_directory cfg m)"


section \<open>Revisions and backing objects\<close>

text \<open>
  The names of the objects that should exist according to the revisions: one per slot
  with an odd revision, at generation \<^verbatim>\<open>revision >> 1\<close>.
\<close>

definition existing_names :: "state \<Rightarrow> (nat \<times> 32 word) list" where
  "existing_names s =
     map (\<lambda>i. SHMBUF_SEGMENT_FILENAME i (revision (segments s ! i)))
       (filter (\<lambda>i. SHMBUF_SEGMENT_EXISTS (revision (segments s ! i)))
          [0..<length (segments s)])"

definition files_match :: "state \<Rightarrow> bool" where
  "files_match s = (set (shm_files s) = set (existing_names s))"

lemma exists_odd: "SHMBUF_SEGMENT_EXISTS r = odd r"
  by (simp add: SHMBUF_SEGMENT_EXISTS_def and_one_eq mod_2_eq_odd)

lemma exists_succ: "SHMBUF_SEGMENT_EXISTS (r + 1) = (\<not> SHMBUF_SEGMENT_EXISTS r)"
  by (simp add: exists_odd)

lemma drop_bit_succ_even: "\<not> SHMBUF_SEGMENT_EXISTS r \<Longrightarrow> drop_bit 1 (r + 1) = drop_bit 1 (r::32 word)"
proof -
  assume "\<not> SHMBUF_SEGMENT_EXISTS r"
  then have "even r" by (simp add: exists_odd)
  then have "r + 1 = r OR 1" by (simp add: or_one_eq)
  then show ?thesis by (simp add: drop_bit_Suc)
qed

lemma create_pick_Inr:
  "create_pick s = (Inr sid, s1) \<Longrightarrow>
     segments s1 = segments s \<and> local_maps s1 = local_maps s \<and> shm_files s1 = shm_files s \<and>
     mem s1 = mem s \<and> active_segment_list s1 = active_segment_list s \<and>
     \<not> lock s \<and> \<not> lock s1 \<and> free_segment_list s = sid # free_segment_list s1"
  by (cases "free_segment_list s") (auto simp: create_pick_def split: if_splits)

lemma create_unmap_ghost_None:
  "create_unmap_ghost os s sid = (None, s2) \<Longrightarrow>
     segments s2 = segments s \<and> shm_files s2 = shm_files s \<and> mem s2 = mem s \<and>
     length (local_maps s2) = length (local_maps s) \<and> lock s2 = lock s \<and>
     active_segment_list s2 = active_segment_list s \<and> free_segment_list s2 = free_segment_list s"
  by (cases "is_attached (local_maps s ! sid)")
     (auto simp: create_unmap_ghost_def Let_def set_lmap_def split: if_splits)

lemma create_backing_None:
  "create_backing cfg os s sid rv = (None, s3) \<Longrightarrow>
     segments s3 = segments s \<and> local_maps s3 = local_maps s \<and> lock s3 = lock s \<and>
     active_segment_list s3 = active_segment_list s \<and> free_segment_list s3 = free_segment_list s \<and>
     shm_files s3 = List.insert (SHMBUF_SEGMENT_FILENAME sid rv) (shm_files s) \<and>
     mem s3 = memset (mem s) (shmBufferSegmentMmapPtr cfg sid) 0 (shmbuf_segment_size cfg)"
  by (simp add: create_backing_def Let_def split: if_splits) auto

lemma create_init_Inr:
  assumes "create_init cfg s sid = (Inr sid', s4)" and "sid < length (segments s)"
  shows "sid' = sid \<and> length (segments s4) = length (segments s) \<and>
     revision (segments s4 ! sid) = revision (segments s ! sid) + 1 \<and>
     (\<forall>i. i \<noteq> sid \<longrightarrow> segments s4 ! i = segments s ! i) \<and>
     shm_files s4 = shm_files s \<and> lock s4 = lock s \<and>
     active_segment_list s4 = active_segment_list s \<and> free_segment_list s4 = free_segment_list s"
  using assms
  by (simp add: create_init_def Let_def split_beta set_lmap_def set_seg_def split: if_splits) auto

lemma create_revision:
  assumes "shmBufferCreateSegment cfg os s = (Inr sid, s')"
  shows "sid < length (segments s) \<and> length (segments s') = length (segments s) \<and>
         revision (segments s' ! sid) = revision (segments s ! sid) + 1 \<and>
         (\<forall>i. i \<noteq> sid \<longrightarrow> segments s' ! i = segments s ! i) \<and>
         shm_files s' = List.insert (SHMBUF_SEGMENT_FILENAME sid (revision (segments s ! sid))) (shm_files s)"
proof -
  obtain r1 s1 where p: "create_pick s = (r1, s1)" by (cases "create_pick s")
  with assms obtain sid1 where r1: "r1 = Inr sid1"
    by (cases r1) (auto simp: shmBufferCreateSegment_def)
  note p1 = create_pick_Inr [OF p [unfolded r1]]
  from assms p r1 have inb: "sid1 < length (segments s1)" "sid1 < length (local_maps s1)"
    by (auto simp: shmBufferCreateSegment_def split: if_splits)
  obtain r2 s2 where g: "create_unmap_ghost os s1 sid1 = (r2, s2)"
    by (cases "create_unmap_ghost os s1 sid1")
  with assms p r1 inb have r2: "r2 = None"
    by (cases r2) (auto simp: shmBufferCreateSegment_def Let_def split: if_splits)
  note p2 = create_unmap_ghost_None [OF g [unfolded r2]]
  obtain r3 s3 where b: "create_backing cfg os s2 sid1 (revision (segments s1 ! sid1)) = (r3, s3)"
    by (cases "create_backing cfg os s2 sid1 (revision (segments s1 ! sid1))")
  with assms p r1 inb g r2 have r3: "r3 = None"
    by (cases r3) (auto simp: shmBufferCreateSegment_def Let_def split: if_splits)
  note p3 = create_backing_None [OF b [unfolded r3]]
  from assms p r1 inb g r2 b r3 have i: "create_init cfg s3 sid1 = (Inr sid, s')"
    by (auto simp: shmBufferCreateSegment_def Let_def split: if_splits)
  have "sid1 < length (segments s3)" using inb p2 p3 by simp
  note p4 = create_init_Inr [OF i this]
  show ?thesis using p1 p2 p3 p4 inb by simp
qed

lemma drop_revision:
  assumes "shmBufferDropSegment cfg os s sid = (None, s')"
  shows "sid < length (segments s) \<and> length (segments s') = length (segments s) \<and>
         revision (segments s' ! sid) = revision (segments s ! sid) + 1 \<and>
         (\<forall>i. i \<noteq> sid \<longrightarrow> segments s' ! i = segments s ! i) \<and>
         SHMBUF_SEGMENT_FILENAME sid (revision (segments s ! sid)) \<in> set (shm_files s) \<and>
         shm_files s' = removeAll (SHMBUF_SEGMENT_FILENAME sid (revision (segments s ! sid))) (shm_files s)"
proof (cases "is_attached (local_maps s ! sid)")
  case True
  then show ?thesis using assms
    by (simp add: shmBufferDropSegment_def Let_def set_seg_def set_lmap_def split: if_splits) auto
next
  case False
  then show ?thesis using assms
    by (simp add: shmBufferDropSegment_def Let_def set_seg_def set_lmap_def split: if_splits) auto
qed

lemma set_existing_names:
  "set (existing_names s) =
     {SHMBUF_SEGMENT_FILENAME i (revision (segments s ! i)) | i.
        i < length (segments s) \<and> SHMBUF_SEGMENT_EXISTS (revision (segments s ! i))}"
  by (auto simp: existing_names_def)

lemma existing_namesI:
  "i < length (segments s) \<Longrightarrow> SHMBUF_SEGMENT_EXISTS (revision (segments s ! i)) \<Longrightarrow>
   x = SHMBUF_SEGMENT_FILENAME i (revision (segments s ! i)) \<Longrightarrow> x \<in> set (existing_names s)"
  by (auto simp: set_existing_names)

lemma filename_succ_even:
  "\<not> SHMBUF_SEGMENT_EXISTS r \<Longrightarrow> SHMBUF_SEGMENT_FILENAME i (r + 1) = SHMBUF_SEGMENT_FILENAME i r"
  using drop_bit_succ_even [of r] by (simp add: SHMBUF_SEGMENT_FILENAME_def)

lemma filename_slot:
  "SHMBUF_SEGMENT_FILENAME i r = SHMBUF_SEGMENT_FILENAME j r' \<Longrightarrow> i = j"
  by (simp add: SHMBUF_SEGMENT_FILENAME_def)

lemma create_files_match:
  assumes "shmBufferCreateSegment cfg os s = (Inr sid, s')"
    and "\<not> SHMBUF_SEGMENT_EXISTS (revision (segments s ! sid))"
    and "files_match s"
  shows "files_match s'"
proof -
  note c = create_revision [OF assms(1)]
  let ?name = "SHMBUF_SEGMENT_FILENAME sid (revision (segments s ! sid))"
  have "set (existing_names s') = insert ?name (set (existing_names s))"
  proof (intro set_eqI iffI)
    fix x assume "x \<in> set (existing_names s')"
    then obtain i where i: "i < length (segments s')" "SHMBUF_SEGMENT_EXISTS (revision (segments s' ! i))"
      "x = SHMBUF_SEGMENT_FILENAME i (revision (segments s' ! i))"
      by (auto simp: set_existing_names)
    show "x \<in> insert ?name (set (existing_names s))"
    proof (cases "i = sid")
      case True
      then show ?thesis using i c assms(2) by (simp add: filename_succ_even)
    next
      case False
      then have "segments s' ! i = segments s ! i" using c by simp
      then show ?thesis using i c by (auto simp: set_existing_names)
    qed
  next
    fix x assume "x \<in> insert ?name (set (existing_names s))"
    then consider "x = ?name" | "x \<in> set (existing_names s)" by auto
    then show "x \<in> set (existing_names s')"
    proof cases
      case 1
      have "SHMBUF_SEGMENT_EXISTS (revision (segments s' ! sid))"
        using c assms(2) by (simp add: exists_succ)
      moreover have "x = SHMBUF_SEGMENT_FILENAME sid (revision (segments s' ! sid))"
        using 1 c assms(2) by (simp add: filename_succ_even)
      ultimately show ?thesis using c by (intro existing_namesI [of sid]) simp_all
    next
      case 2
      then obtain i where i: "i < length (segments s)" "SHMBUF_SEGMENT_EXISTS (revision (segments s ! i))"
        "x = SHMBUF_SEGMENT_FILENAME i (revision (segments s ! i))"
        by (auto simp: set_existing_names)
      then have "i \<noteq> sid" using assms(2) by auto
      then have "segments s' ! i = segments s ! i" using c by simp
      then show ?thesis using i c by (intro existing_namesI [of i]) simp_all
    qed
  qed
  then show ?thesis using assms(3) c by (simp add: files_match_def)
qed

lemma drop_files_match:
  assumes "shmBufferDropSegment cfg os s sid = (None, s')"
    and "SHMBUF_SEGMENT_EXISTS (revision (segments s ! sid))"
    and "files_match s"
  shows "files_match s'"
proof -
  note c = drop_revision [OF assms(1)]
  let ?name = "SHMBUF_SEGMENT_FILENAME sid (revision (segments s ! sid))"
  have "set (existing_names s') = set (existing_names s) - {?name}"
  proof (intro set_eqI iffI)
    fix x assume "x \<in> set (existing_names s')"
    then obtain i where i: "i < length (segments s')" "SHMBUF_SEGMENT_EXISTS (revision (segments s' ! i))"
      "x = SHMBUF_SEGMENT_FILENAME i (revision (segments s' ! i))"
      by (auto simp: set_existing_names)
    have "i \<noteq> sid" using i c assms(2) by (auto simp: exists_succ)
    then have "segments s' ! i = segments s ! i" using c by simp
    then show "x \<in> set (existing_names s) - {?name}"
      using i c \<open>i \<noteq> sid\<close> by (auto simp: set_existing_names dest: filename_slot)
  next
    fix x assume "x \<in> set (existing_names s) - {?name}"
    then obtain i where i: "i < length (segments s)" "SHMBUF_SEGMENT_EXISTS (revision (segments s ! i))"
      "x = SHMBUF_SEGMENT_FILENAME i (revision (segments s ! i))" "x \<noteq> ?name"
      by (auto simp: set_existing_names)
    then have "i \<noteq> sid" by auto
    then have "segments s' ! i = segments s ! i" using c by simp
    then show "x \<in> set (existing_names s')" using i c by (intro existing_namesI [of i]) simp_all
  qed
  then show ?thesis using assms(3) c by (auto simp: files_match_def)
qed

lemma create_free_list:
  assumes "shmBufferCreateSegment cfg os s = (Inr sid, s')"
  shows "free_segment_list s = sid # free_segment_list s'"
proof -
  obtain r1 s1 where p: "create_pick s = (r1, s1)" by (cases "create_pick s")
  with assms obtain sid1 where r1: "r1 = Inr sid1"
    by (cases r1) (auto simp: shmBufferCreateSegment_def)
  note p1 = create_pick_Inr [OF p [unfolded r1]]
  from assms p r1 have inb: "sid1 < length (segments s1)" "sid1 < length (local_maps s1)"
    by (auto simp: shmBufferCreateSegment_def split: if_splits)
  obtain r2 s2 where g: "create_unmap_ghost os s1 sid1 = (r2, s2)"
    by (cases "create_unmap_ghost os s1 sid1")
  with assms p r1 inb have r2: "r2 = None"
    by (cases r2) (auto simp: shmBufferCreateSegment_def Let_def split: if_splits)
  note p2 = create_unmap_ghost_None [OF g [unfolded r2]]
  obtain r3 s3 where b: "create_backing cfg os s2 sid1 (revision (segments s1 ! sid1)) = (r3, s3)"
    by (cases "create_backing cfg os s2 sid1 (revision (segments s1 ! sid1))")
  with assms p r1 inb g r2 have r3: "r3 = None"
    by (cases r3) (auto simp: shmBufferCreateSegment_def Let_def split: if_splits)
  note p3 = create_backing_None [OF b [unfolded r3]]
  from assms p r1 inb g r2 b r3 have i: "create_init cfg s3 sid1 = (Inr sid, s')"
    by (auto simp: shmBufferCreateSegment_def Let_def split: if_splits)
  have "sid1 < length (segments s3)" using inb p2 p3 by simp
  note p4 = create_init_Inr [OF i this]
  show ?thesis using p1 p2 p3 p4 inb by simp
qed

lemma drop_free_list:
  assumes "shmBufferDropSegment cfg os s sid = (None, s')"
  shows "free_segment_list s' = free_segment_list s"
proof (cases "is_attached (local_maps s ! sid)")
  case True
  then show ?thesis using assms
    by (simp add: shmBufferDropSegment_def Let_def set_seg_def set_lmap_def split: if_splits) auto
next
  case False
  then show ?thesis using assms
    by (simp add: shmBufferDropSegment_def Let_def set_seg_def set_lmap_def split: if_splits) auto
qed


text \<open>
  Runs of the directory: from the start-up directory, by creations that succeed, by
  drops that succeed, each followed by the push of the slot on the free list as in
  \<^verbatim>\<open>shmbufFree\<close>, and by whatever else leaves the revisions, the objects and the list
  of free slots alone (the allocation and the release of chunks, the lists of active
  segments, the lock). \<open>cnt i\<close> counts the creations and drops of slot \<open>i\<close>.
\<close>

inductive run :: "config \<Rightarrow> (nat \<Rightarrow> nat) \<Rightarrow> state \<Rightarrow> bool" for cfg :: config where
  start: "run cfg (\<lambda>_. 0) (startup_directory cfg m)"
| create: "run cfg cnt s \<Longrightarrow> shmBufferCreateSegment cfg os s = (Inr sid, s') \<Longrightarrow>
           run cfg (cnt(sid := Suc (cnt sid))) s'"
| drop: "run cfg cnt s \<Longrightarrow> shmBufferDropSegment cfg os s sid = (None, s') \<Longrightarrow>
         run cfg (cnt(sid := Suc (cnt sid)))
           (s'\<lparr>free_segment_list := sid # free_segment_list s'\<rparr>)"
| other: "run cfg cnt s \<Longrightarrow> map revision (segments s') = map revision (segments s) \<Longrightarrow>
          shm_files s' = shm_files s \<Longrightarrow> free_segment_list s' = free_segment_list s \<Longrightarrow>
          run cfg cnt s'"

definition run_inv :: "(nat \<Rightarrow> nat) \<Rightarrow> state \<Rightarrow> bool" where
  "run_inv cnt s =
     (files_match s \<and> distinct (free_segment_list s) \<and>
      (\<forall>i \<in> set (free_segment_list s).
         i < length (segments s) \<longrightarrow> \<not> SHMBUF_SEGMENT_EXISTS (revision (segments s ! i))) \<and>
      (\<forall>i < length (segments s). revision (segments s ! i) = of_nat (cnt i)))"

lemma run_inv_start: "run_inv (\<lambda>_. 0) (startup_directory cfg m)"
  by (simp add: run_inv_def files_match_def existing_names_def startup_directory_def
        SHMBUF_SEGMENT_EXISTS_def)

lemma run_invD:
  assumes "run_inv cnt s"
  shows "files_match s" and "distinct (free_segment_list s)"
    and "\<And>i. i \<in> set (free_segment_list s) \<Longrightarrow> i < length (segments s) \<Longrightarrow>
           \<not> SHMBUF_SEGMENT_EXISTS (revision (segments s ! i))"
    and "\<And>i. i < length (segments s) \<Longrightarrow> revision (segments s ! i) = of_nat (cnt i)"
  using assms unfolding run_inv_def by blast+

lemma run_invI:
  assumes "files_match s" and "distinct (free_segment_list s)"
    and "\<And>i. i \<in> set (free_segment_list s) \<Longrightarrow> i < length (segments s) \<Longrightarrow>
           \<not> SHMBUF_SEGMENT_EXISTS (revision (segments s ! i))"
    and "\<And>i. i < length (segments s) \<Longrightarrow> revision (segments s ! i) = of_nat (cnt i)"
  shows "run_inv cnt s"
  using assms unfolding run_inv_def by blast

lemma run_inv_create:
  assumes i: "run_inv cnt s" and c: "shmBufferCreateSegment cfg os s = (Inr sid, s')"
  shows "run_inv (cnt(sid := Suc (cnt sid))) s'"
    and "\<not> SHMBUF_SEGMENT_EXISTS (revision (segments s ! sid))"
proof -
  note r = create_revision [OF c]
  note f = create_free_list [OF c]
  note d = run_invD [OF i]
  have sid: "sid \<in> set (free_segment_list s)" "sid < length (segments s)"
    using f r by simp_all
  show e: "\<not> SHMBUF_SEGMENT_EXISTS (revision (segments s ! sid))"
    using sid by (rule d(3))
  have fm: "files_match s'"
    using c e d(1) by (rule create_files_match)
  have ds: "distinct (free_segment_list s')" "sid \<notin> set (free_segment_list s')"
    using d(2) f by simp_all
  show "run_inv (cnt(sid := Suc (cnt sid))) s'"
  proof (rule run_invI [OF fm ds(1)])
    fix j assume j: "j \<in> set (free_segment_list s')" "j < length (segments s')"
    have "j \<noteq> sid" using j(1) ds(2) by auto
    then have "segments s' ! j = segments s ! j" using r by simp
    moreover have "j \<in> set (free_segment_list s)" using j(1) f by simp
    moreover have "j < length (segments s)" using j(2) r by simp
    ultimately show "\<not> SHMBUF_SEGMENT_EXISTS (revision (segments s' ! j))"
      using d(3) [of j] by simp
  next
    fix j assume j: "j < length (segments s')"
    then have jl: "j < length (segments s)" using r by simp
    show "revision (segments s' ! j) = of_nat ((cnt(sid := Suc (cnt sid))) j)"
    proof (cases "j = sid")
      case True
      have "revision (segments s' ! sid) = revision (segments s ! sid) + 1" using r by simp
      also have "\<dots> = of_nat (cnt sid) + 1" using d(4) [OF sid(2)] by simp
      finally show ?thesis using True by simp
    next
      case False
      then have "segments s' ! j = segments s ! j" using r by simp
      then show ?thesis using False d(4) [OF jl] by simp
    qed
  qed
qed

lemma run_inv_drop:
  assumes i: "run_inv cnt s" and c: "shmBufferDropSegment cfg os s sid = (None, s')"
  shows "run_inv (cnt(sid := Suc (cnt sid))) (s'\<lparr>free_segment_list := sid # free_segment_list s'\<rparr>)"
    and "SHMBUF_SEGMENT_EXISTS (revision (segments s ! sid))"
proof -
  note r = drop_revision [OF c]
  note f = drop_free_list [OF c]
  note d = run_invD [OF i]
  let ?s = "s'\<lparr>free_segment_list := sid # free_segment_list s'\<rparr>"
  have sid: "sid < length (segments s)" using r by simp
  have "SHMBUF_SEGMENT_FILENAME sid (revision (segments s ! sid)) \<in> set (shm_files s)"
    using r by simp
  then have "SHMBUF_SEGMENT_FILENAME sid (revision (segments s ! sid)) \<in> set (existing_names s)"
    using d(1) by (simp add: files_match_def)
  then obtain j where j: "j < length (segments s)"
      "SHMBUF_SEGMENT_EXISTS (revision (segments s ! j))"
      "SHMBUF_SEGMENT_FILENAME sid (revision (segments s ! sid)) =
       SHMBUF_SEGMENT_FILENAME j (revision (segments s ! j))"
    unfolding set_existing_names by blast
  have "sid = j" using j(3) by (rule filename_slot)
  then show e: "SHMBUF_SEGMENT_EXISTS (revision (segments s ! sid))" using j(2) by simp
  have "files_match s'"
    using c e d(1) by (rule drop_files_match)
  then have fm: "files_match ?s"
    by (simp add: files_match_def existing_names_def)
  have ns: "sid \<notin> set (free_segment_list s)"
    using d(3) [of sid] e sid by blast
  have ds: "distinct (free_segment_list ?s)"
    using d(2) ns f by simp
  show "run_inv (cnt(sid := Suc (cnt sid))) ?s"
  proof (rule run_invI [OF fm ds])
    fix k assume k: "k \<in> set (free_segment_list ?s)" "k < length (segments ?s)"
    then have kl: "k < length (segments s)" using r by simp
    show "\<not> SHMBUF_SEGMENT_EXISTS (revision (segments ?s ! k))"
    proof (cases "k = sid")
      case True
      have "revision (segments s' ! sid) = revision (segments s ! sid) + 1" using r by simp
      then show ?thesis using True e by (simp add: exists_succ)
    next
      case False
      then have "segments s' ! k = segments s ! k" using r by simp
      moreover have "k \<in> set (free_segment_list s)" using k(1) f False by simp
      ultimately show ?thesis using d(3) [OF _ kl] by simp
    qed
  next
    fix k assume "k < length (segments ?s)"
    then have kl: "k < length (segments s)" using r by simp
    show "revision (segments ?s ! k) = of_nat ((cnt(sid := Suc (cnt sid))) k)"
    proof (cases "k = sid")
      case True
      have "revision (segments s' ! sid) = revision (segments s ! sid) + 1" using r by simp
      also have "\<dots> = of_nat (cnt sid) + 1" using d(4) [OF sid] by simp
      finally show ?thesis using True by simp
    next
      case False
      then have "segments s' ! k = segments s ! k" using r by simp
      then show ?thesis using False d(4) [OF kl] by simp
    qed
  qed
qed

lemma run_inv_other:
  assumes i: "run_inv cnt s" and r: "map revision (segments s') = map revision (segments s)"
    and f: "shm_files s' = shm_files s" "free_segment_list s' = free_segment_list s"
  shows "run_inv cnt s'"
proof -
  note d = run_invD [OF i]
  have "length (map revision (segments s')) = length (map revision (segments s))"
    using r by simp
  then have l: "length (segments s') = length (segments s)" by simp
  have n: "revision (segments s' ! k) = revision (segments s ! k)" if "k < length (segments s)" for k
  proof -
    have "map revision (segments s') ! k = map revision (segments s) ! k" using r by simp
    then show ?thesis using that l by simp
  qed
  have "{SHMBUF_SEGMENT_FILENAME i (revision (segments s' ! i)) | i.
           i < length (segments s) \<and> SHMBUF_SEGMENT_EXISTS (revision (segments s' ! i))} =
        {SHMBUF_SEGMENT_FILENAME i (revision (segments s ! i)) | i.
           i < length (segments s) \<and> SHMBUF_SEGMENT_EXISTS (revision (segments s ! i))}"
    (is "?A = ?B")
  proof (intro set_eqI iffI)
    fix x assume "x \<in> ?A"
    then obtain k where "k < length (segments s)"
        "SHMBUF_SEGMENT_EXISTS (revision (segments s' ! k))"
        "x = SHMBUF_SEGMENT_FILENAME k (revision (segments s' ! k))"
      by blast
    then have "k < length (segments s) \<and> SHMBUF_SEGMENT_EXISTS (revision (segments s ! k)) \<and>
        x = SHMBUF_SEGMENT_FILENAME k (revision (segments s ! k))"
      using n [of k] by simp
    then show "x \<in> ?B" by blast
  next
    fix x assume "x \<in> ?B"
    then obtain k where "k < length (segments s)"
        "SHMBUF_SEGMENT_EXISTS (revision (segments s ! k))"
        "x = SHMBUF_SEGMENT_FILENAME k (revision (segments s ! k))"
      by blast
    then have "k < length (segments s) \<and> SHMBUF_SEGMENT_EXISTS (revision (segments s' ! k)) \<and>
        x = SHMBUF_SEGMENT_FILENAME k (revision (segments s' ! k))"
      using n [of k] by simp
    then show "x \<in> ?A" by blast
  qed
  then have "set (existing_names s') = set (existing_names s)"
    unfolding set_existing_names l .
  then have "files_match s'" using d(1) f by (simp add: files_match_def)
  then show ?thesis
  proof (rule run_invI)
    show "distinct (free_segment_list s')" using d(2) f by simp
  next
    fix k assume "k \<in> set (free_segment_list s')" "k < length (segments s')"
    then show "\<not> SHMBUF_SEGMENT_EXISTS (revision (segments s' ! k))"
      using d(3) [of k] f l n by simp
  next
    fix k assume "k < length (segments s')"
    then show "revision (segments s' ! k) = of_nat (cnt k)"
      using d(4) [of k] l n by simp
  qed
qed

lemma run_run_inv: "run cfg cnt s \<Longrightarrow> run_inv cnt s"
proof (induction rule: run.induct)
  case (start m)
  show ?case by (rule run_inv_start)
next
  case (create cnt s os sid s')
  show ?case using create(3,2) by (rule run_inv_create(1))
next
  case (drop cnt s os sid s')
  show ?case using drop(3,2) by (rule run_inv_drop(1))
next
  case (other cnt s s')
  show ?case using other(5,2,3,4) by (rule run_inv_other)
qed


section \<open>Example configuration\<close>

text \<open>
  The smallest configuration the GUC bounds allow: segments of 32 MB, ten slots;
  every system call succeeds.
\<close>

definition cfg0 :: config where
  "cfg0 = \<lparr>shmbuf_segment_size = 2 ^ 25, shmbuf_num_logical_segment = 10,
           shmbuf_segment_vaddr_head = 0x7f0000000000, shmBufSegHead = 0x7e0000000000,
           assert_checking = False\<rparr>"

definition os_ok :: os_env where
  "os_ok = \<lparr>munmap_ok = True, mmap_none_ok = True, shm_open_ok = True, fallocate_eintr = 0,
            fallocate_ok = True, mmap_ok = True, shm_unlink_ok = True\<rparr>"

definition zero_memory :: memory where
  "zero_memory = (\<lambda>_. 0)"

definition after_startup :: state where
  "after_startup = snd (pgstrom_startup_shmbuf cfg0 os_ok zero_memory)"

text \<open>A backend that has not touched slot 0 yet: its local map is all unattached.\<close>

definition untouched_backend :: state where
  "untouched_backend =
     after_startup\<lparr>local_maps :=
       replicate 10 \<lparr>mutex = False, map_revision = 0, is_attached = False\<rparr>\<rparr>"

text \<open>Slot 0 after \<open>2 ^ 31\<close> creations and \<open>2 ^ 31 - 1\<close> drops.\<close>

definition before_wrap :: state where
  "before_wrap =
     after_startup\<lparr>segments := (segments after_startup)
        [0 := (segments after_startup ! 0)\<lparr>revision := 0xFFFFFFFF\<rparr>],
        shm_files := [(0, 0x7FFFFFFF)]\<rparr>"

lemmas create_eval_defs =
  pgstrom_startup_shmbuf_def shmBufferCreateSegment_def cfg0_def os_ok_def startup_directory_def
  create_pick_def create_unmap_ghost_def create_backing_def create_init_def Let_def upt_rec
  set_lmap_def set_seg_def SHMBUF_SEGMENT_EXISTS_def split_beta SHMBUF_CHUNKSZ_MAX_BIT_def
  SHMBUF_CHUNKSZ_MIN_BIT_def num_classes_def shmBufferSegmentMmapPtr_def after_startup_def
  SHMBUF_SEGMENT_FILENAME_def

lemma after_startup_fields:
  "fst (pgstrom_startup_shmbuf cfg0 os_ok zero_memory) = Inr 0"
  "length (segments after_startup) = 10"
  "length (local_maps after_startup) = 10"
  "revision (segments after_startup ! 0) = 1"
  "local_maps after_startup ! 0 = \<lparr>mutex = False, map_revision = 1, is_attached = True\<rparr>"
  "shm_files after_startup = [(0, 0)]"
  "lock after_startup = False"
  "active_segment_list after_startup = []"
  "free_segment_list after_startup = [1, 2, 3, 4, 5, 6, 7, 8, 9]"
  by (simp_all add: create_eval_defs)

theorem attach_on_demand_witness:
  "fst (shmBufferAttachSegmentOnDemand cfg0 os_ok untouched_backend (0x7f0000000000 + 100)) = Resumed
   \<and> revision (segments untouched_backend ! 0) = 1
   \<and> \<not> is_attached (local_maps (snd (shmBufferAttachSegmentOnDemand cfg0 os_ok
           untouched_backend (0x7f0000000000 + 100))) ! 0)
   \<and> map_revision (local_maps (snd (shmBufferAttachSegmentOnDemand cfg0 os_ok
           untouched_backend (0x7f0000000000 + 100))) ! 0) = 0"
proof -
  let ?r = "shmBufferAttachSegmentOnDemand cfg0 os_ok untouched_backend (0x7f0000000000 + 100)"
  have r: "fst ?r = Resumed"
    by (simp add: shmBufferAttachSegmentOnDemand_def untouched_backend_def after_startup_fields
          attach_open_and_map_def shmbuf_segment_vaddr_tail_def Let_def set_lmap_def
          SHMBUF_SEGMENT_EXISTS_def SHMBUF_SEGMENT_FILENAME_def cfg0_def os_ok_def)
  then have "?r = (Resumed, snd ?r)" by (metis prod.collapse)
  from attach_on_demand_leaves_entry_unattached [OF this] r show ?thesis
    by (simp add: untouched_backend_def after_startup_fields cfg0_def)
qed

text \<open>
  C7 (as amended). Take any run of successful creations and drops from the start-up
  directory, with \<open>cnt i\<close> the number of creations and drops of slot \<open>i\<close> so far. Then
  the revision of slot \<open>i\<close> is \<open>cnt i\<close> modulo \<open>2 ^ 32\<close>, and it is odd exactly when
  \<open>cnt i\<close> is odd, that is when the last step of the slot was a creation; the objects
  that exist are those of the slots with an odd revision; a creation that succeeds
  next finds the revision of its slot even, adds one and yields an odd value, the
  counter itself growing by one; a drop that succeeds next finds the revision odd,
  adds one modulo \<open>2 ^ 32\<close> and yields an even value; and the revisions of a slot at two
  points of such runs are equal exactly when the numbers of steps differ by a multiple
  of \<open>2 ^ 32\<close>.
\<close>

theorem revision_create_drop:
  assumes "run cfg cnt s"
  shows "(\<forall>i < length (segments s).
            unat (revision (segments s ! i)) = cnt i mod 2 ^ 32 \<and>
            SHMBUF_SEGMENT_EXISTS (revision (segments s ! i)) = odd (cnt i)) \<and>
         files_match s \<and>
         (shmBufferCreateSegment cfg os s = (Inr sid, s') \<longrightarrow>
            \<not> SHMBUF_SEGMENT_EXISTS (revision (segments s ! sid)) \<and>
            revision (segments s' ! sid) = revision (segments s ! sid) + 1 \<and>
            unat (revision (segments s' ! sid)) = unat (revision (segments s ! sid)) + 1 \<and>
            SHMBUF_SEGMENT_EXISTS (revision (segments s' ! sid))) \<and>
         (shmBufferDropSegment cfg os s sid = (None, s'') \<longrightarrow>
            SHMBUF_SEGMENT_EXISTS (revision (segments s ! sid)) \<and>
            revision (segments s'' ! sid) = revision (segments s ! sid) + 1 \<and>
            unat (revision (segments s'' ! sid)) =
              (unat (revision (segments s ! sid)) + 1) mod 2 ^ 32 \<and>
            \<not> SHMBUF_SEGMENT_EXISTS (revision (segments s'' ! sid))) \<and>
         (run cfg cnt' t \<and> j < length (segments s) \<and> j < length (segments t) \<longrightarrow>
            (revision (segments t ! j) = revision (segments s ! j)) =
            (cnt' j mod 2 ^ 32 = cnt j mod 2 ^ 32))"
proof -
  note d = run_invD [OF run_run_inv [OF assms]]
  have u: "unat (revision (segments s ! i)) = cnt i mod 2 ^ 32"
    if "i < length (segments s)" for i
    using d(4) [OF that] by (simp add: unat_of_nat)
  have o: "SHMBUF_SEGMENT_EXISTS (revision (segments s ! i)) = odd (cnt i)"
    if "i < length (segments s)" for i
    using d(4) [OF that] by (simp add: exists_odd)
  have c: "\<not> SHMBUF_SEGMENT_EXISTS (revision (segments s ! sid)) \<and>
            revision (segments s' ! sid) = revision (segments s ! sid) + 1 \<and>
            unat (revision (segments s' ! sid)) = unat (revision (segments s ! sid)) + 1 \<and>
            SHMBUF_SEGMENT_EXISTS (revision (segments s' ! sid))"
    if c: "shmBufferCreateSegment cfg os s = (Inr sid, s')"
  proof -
    have e: "\<not> SHMBUF_SEGMENT_EXISTS (revision (segments s ! sid))"
      using run_run_inv [OF assms] c by (rule run_inv_create(2))
    have r: "revision (segments s' ! sid) = revision (segments s ! sid) + 1"
      using create_revision [OF c] by simp
    have "revision (segments s ! sid) \<noteq> - 1" using e by (auto simp: exists_odd)
    then have "revision (segments s ! sid) + 1 \<noteq> 0" by (simp add: eq_neg_iff_add_eq_0)
    then have "unat (revision (segments s' ! sid)) = unat (revision (segments s ! sid)) + 1"
      unfolding r using unatSuc [of "revision (segments s ! sid)"] by (simp add: add.commute)
    moreover have "SHMBUF_SEGMENT_EXISTS (revision (segments s' ! sid))"
      using r e by (simp add: exists_succ)
    ultimately show ?thesis using e r by blast
  qed
  have p: "SHMBUF_SEGMENT_EXISTS (revision (segments s ! sid)) \<and>
            revision (segments s'' ! sid) = revision (segments s ! sid) + 1 \<and>
            unat (revision (segments s'' ! sid)) =
              (unat (revision (segments s ! sid)) + 1) mod 2 ^ 32 \<and>
            \<not> SHMBUF_SEGMENT_EXISTS (revision (segments s'' ! sid))"
    if c: "shmBufferDropSegment cfg os s sid = (None, s'')"
  proof -
    have e: "SHMBUF_SEGMENT_EXISTS (revision (segments s ! sid))"
      using run_run_inv [OF assms] c by (rule run_inv_drop(2))
    have r: "revision (segments s'' ! sid) = revision (segments s ! sid) + 1"
      using drop_revision [OF c] by simp
    have "unat (revision (segments s'' ! sid)) = (unat (revision (segments s ! sid)) + 1) mod 2 ^ 32"
      unfolding r by (simp add: unat_word_ariths)
    moreover have "\<not> SHMBUF_SEGMENT_EXISTS (revision (segments s'' ! sid))"
      using r e by (simp add: exists_succ)
    ultimately show ?thesis using e r by blast
  qed
  have q: "(revision (segments t ! j) = revision (segments s ! j)) =
            (cnt' j mod 2 ^ 32 = cnt j mod 2 ^ 32)"
    if "run cfg cnt' t" "j < length (segments s)" "j < length (segments t)"
  proof -
    note d' = run_invD [OF run_run_inv [OF that(1)]]
    have "unat (revision (segments t ! j)) = cnt' j mod 2 ^ 32"
      using d'(4) [OF that(3)] by (simp add: unat_of_nat)
    moreover have "(revision (segments t ! j) = revision (segments s ! j)) =
                   (unat (revision (segments t ! j)) = unat (revision (segments s ! j)))"
      by (simp add: word_unat_eq_iff)
    ultimately show ?thesis using u [OF that(2)] by simp
  qed
  show ?thesis using u o d(1) c p q by blast
qed

theorem revision_create_drop_witness:
  "run cfg0 ((\<lambda>_. 0)(0 := Suc 0)) after_startup
   \<and> unat (revision (segments after_startup ! 0)) = 1
   \<and> SHMBUF_SEGMENT_EXISTS (revision (segments after_startup ! 0))
   \<and> files_match after_startup
   \<and> fst (shmBufferDropSegment cfg0 os_ok after_startup 0) = None
   \<and> revision (segments (snd (shmBufferDropSegment cfg0 os_ok after_startup 0)) ! 0) = 2
   \<and> \<not> SHMBUF_SEGMENT_EXISTS
          (revision (segments (snd (shmBufferDropSegment cfg0 os_ok after_startup 0)) ! 0))"
proof -
  let ?s0 = "startup_directory cfg0 zero_memory"
  let ?d = "shmBufferDropSegment cfg0 os_ok after_startup 0"
  have c: "shmBufferCreateSegment cfg0 os_ok ?s0 = (Inr 0, after_startup)"
    using after_startup_fields(1)
    by (simp add: after_startup_def pgstrom_startup_shmbuf_def prod_eq_iff)
  have "run cfg0 ((\<lambda>_. 0)(0 := Suc ((\<lambda>_. 0) (0::nat)))) after_startup"
    using run.start c by (rule run.create)
  then have r: "run cfg0 ((\<lambda>_. 0)(0 := Suc 0)) after_startup" by simp
  have l: "0 < length (segments after_startup)" by (simp add: after_startup_fields)
  have d: "fst ?d = None"
    by (simp add: shmBufferDropSegment_def after_startup_fields Let_def set_seg_def
          set_lmap_def SHMBUF_SEGMENT_FILENAME_def cfg0_def os_ok_def)
  then have d': "?d = (None, snd ?d)" by (simp add: prod_eq_iff)
  note t = revision_create_drop [OF r, where os = os_ok and sid = 0 and s'' = "snd ?d"
      and s' = after_startup and cnt' = "\<lambda>_. 0" and t = after_startup and j = 0]
  from t have t1: "\<forall>i < length (segments after_startup).
            unat (revision (segments after_startup ! i)) = ((\<lambda>_. 0)(0 := Suc 0)) i mod 2 ^ 32 \<and>
            SHMBUF_SEGMENT_EXISTS (revision (segments after_startup ! i))
              = odd (((\<lambda>_. 0)(0 := Suc 0)) i)"
    and t2: "files_match after_startup"
    and t3: "?d = (None, snd ?d) \<longrightarrow>
            SHMBUF_SEGMENT_EXISTS (revision (segments after_startup ! 0)) \<and>
            revision (segments (snd ?d) ! 0) = revision (segments after_startup ! 0) + 1 \<and>
            unat (revision (segments (snd ?d) ! 0)) =
              (unat (revision (segments after_startup ! 0)) + 1) mod 2 ^ 32 \<and>
            \<not> SHMBUF_SEGMENT_EXISTS (revision (segments (snd ?d) ! 0))"
    by blast+
  have a: "unat (revision (segments after_startup ! 0)) = 1"
    "SHMBUF_SEGMENT_EXISTS (revision (segments after_startup ! 0))"
    using t1 l by simp_all
  have b: "revision (segments (snd ?d) ! 0) = revision (segments after_startup ! 0) + 1"
    "\<not> SHMBUF_SEGMENT_EXISTS (revision (segments (snd ?d) ! 0))"
    using t3 d' by blast+
  have "revision (segments (snd ?d) ! 0) = 2"
    unfolding b(1) by (simp add: after_startup_fields)
  then show ?thesis using r a t2 d b(2) by blast
qed

text \<open>
  C7 as stated fails where the 32-bit counter wraps: the drop at revision
  \<open>2 ^ 32 - 1\<close> yields 0, which is smaller, and is the revision the slot started with.
  It also fails for a drop that does not succeed: the revision is advanced first
  (line 403), so when \<^verbatim>\<open>munmap\<close> fails the call ends in \<^verbatim>\<open>elog(FATAL)\<close> with the
  revision even and the object still there.
\<close>

theorem revision_wraps_counterexample:
  "fst (shmBufferDropSegment cfg0 os_ok before_wrap 0) = None
   \<and> revision (segments before_wrap ! 0) = 0xFFFFFFFF
   \<and> revision (segments (snd (shmBufferDropSegment cfg0 os_ok before_wrap 0)) ! 0) = 0
   \<and> unat (revision (segments (snd (shmBufferDropSegment cfg0 os_ok before_wrap 0)) ! 0))
       < unat (revision (segments before_wrap ! 0))
   \<and> revision (segments (startup_directory cfg0 zero_memory) ! 0) = 0
   \<and> fst (shmBufferDropSegment cfg0 (os_ok\<lparr>munmap_ok := False\<rparr>) after_startup 0)
       = Some ElogFatal
   \<and> revision (segments (snd (shmBufferDropSegment cfg0 (os_ok\<lparr>munmap_ok := False\<rparr>)
                                 after_startup 0)) ! 0) = 2
   \<and> shm_files (snd (shmBufferDropSegment cfg0 (os_ok\<lparr>munmap_ok := False\<rparr>)
                        after_startup 0)) = [(0, 0)]
   \<and> \<not> files_match (snd (shmBufferDropSegment cfg0 (os_ok\<lparr>munmap_ok := False\<rparr>)
                             after_startup 0))"
proof -
  let ?f = "shmBufferDropSegment cfg0 (os_ok\<lparr>munmap_ok := False\<rparr>) after_startup 0"
  have w: "fst (shmBufferDropSegment cfg0 os_ok before_wrap 0) = None
   \<and> revision (segments before_wrap ! 0) = 0xFFFFFFFF
   \<and> revision (segments (snd (shmBufferDropSegment cfg0 os_ok before_wrap 0)) ! 0) = 0
   \<and> unat (revision (segments (snd (shmBufferDropSegment cfg0 os_ok before_wrap 0)) ! 0))
       < unat (revision (segments before_wrap ! 0))
   \<and> revision (segments (startup_directory cfg0 zero_memory) ! 0) = 0"
    by (simp add: shmBufferDropSegment_def before_wrap_def after_startup_fields Let_def set_seg_def
        set_lmap_def SHMBUF_SEGMENT_FILENAME_def cfg0_def os_ok_def startup_directory_def)
  have f: "?f = (Some ElogFatal,
                 set_seg after_startup 0 ((segments after_startup ! 0)\<lparr>revision := 2\<rparr>))"
    by (simp add: shmBufferDropSegment_def after_startup_fields Let_def cfg0_def os_ok_def)
  have r: "revision (segments (snd ?f) ! 0) = 2" "shm_files (snd ?f) = [(0, 0)]"
      "length (segments (snd ?f)) = 10"
    unfolding f by (simp_all add: set_seg_def after_startup_fields)
  have o: "revision (segments (snd ?f) ! i) = 0" if "0 < i" "i < 10" for i
    unfolding f using that
    by (simp add: create_eval_defs nth_list_update)
  have "set (existing_names (snd ?f)) = {}"
  proof -
    have "\<not> SHMBUF_SEGMENT_EXISTS (revision (segments (snd ?f) ! i))" if "i < 10" for i
    proof (cases "i = 0")
      case True
      then show ?thesis using r(1) by (simp add: SHMBUF_SEGMENT_EXISTS_def)
    next
      case False
      then show ?thesis using o [of i] that by (simp add: SHMBUF_SEGMENT_EXISTS_def)
    qed
    then show ?thesis unfolding set_existing_names r(3) by blast
  qed
  then have "\<not> files_match (snd ?f)" using r(2) by (simp add: files_match_def)
  then show ?thesis using w f r by simp
qed


section \<open>The buddy allocator\<close>

text \<open>
  Modelled from the spec: \<^verbatim>\<open>get_next_log2\<close> is declared in pg_strom.h, which is not
  among the sources; the spec has it round up to the smallest size class that holds the
  value, that is the least \<open>k\<close> with \<open>size \<le> 2 ^ k\<close>, which is the bit length of
  \<open>size - 1\<close>.
\<close>

fun bit_length :: "nat \<Rightarrow> nat" where
  "bit_length n = (if n = 0 then 0 else Suc (bit_length (n div 2)))"

declare bit_length.simps [simp del]

definition get_next_log2 :: "nat \<Rightarrow> nat" where
  "get_next_log2 sz = (if sz = 0 \<or> sz = 1 then 0 else bit_length (sz - 1))"

text \<open>
  Lines 462-482 of \<^verbatim>\<open>shmBufferSplitChunk\<close>: pop a chunk of class \<open>mclass\<close> and push its
  two halves on the list one class below. Popping an empty list, and indexing the
  26 lists out of range, are undefined in C; the model stops there with an error.
\<close>

definition split_halves ::
  "config \<Rightarrow> nat \<Rightarrow> nat list list \<Rightarrow> memory \<Rightarrow> nat \<Rightarrow> (error + bool) \<times> nat list list \<times> memory" where
  "split_halves cfg segment_id fl m mclass =
     (let mindex = mclass - SHMBUF_CHUNKSZ_MIN_BIT in
      if fl ! mindex = []
      then (Inl (if assert_checking cfg then AssertFailure else EmptyListPop), fl, m)
      else
        let chunk_1 = hd (fl ! mindex);
            fl1 = fl[mindex := tl (fl ! mindex)] in
        if assert_checking cfg \<and>
           \<not> (chunk_mclass m chunk_1 = mclass \<and>
              SHMBUF_CHUNK_MAGIC_HEAD m chunk_1 = SHMBUF_CHUNK_MAGIC_CODE)
        then (Inl AssertFailure, fl1, m)
        else if mindex = 0 then (Inl OutOfBounds, fl1, m)
        else
          let head_addr = free_chunks_addr cfg segment_id (mindex - 1);
              m1 = chunk_init_free m chunk_1 (mclass - 1) head_addr;
              fl2 = dlist_push_tail fl1 (mindex - 1) chunk_1;
              chunk_2 = chunk_1 + 2 ^ (mclass - 1);
              m2 = chunk_init_free m1 chunk_2 (mclass - 1) head_addr;
              fl3 = dlist_push_tail fl2 (mindex - 1) chunk_2 in
          (Inr True, fl3, m2))"

function shmBufferSplitChunk ::
  "config \<Rightarrow> nat \<Rightarrow> nat list list \<Rightarrow> memory \<Rightarrow> nat \<Rightarrow> (error + bool) \<times> nat list list \<times> memory" where
  "shmBufferSplitChunk cfg segment_id fl m mclass =
     (if assert_checking cfg \<and>
         \<not> (mclass > SHMBUF_CHUNKSZ_MIN_BIT \<and> mclass \<le> SHMBUF_CHUNKSZ_MAX_BIT)
      then (Inl AssertFailure, fl, m)
      else if \<not> (SHMBUF_CHUNKSZ_MIN_BIT \<le> mclass \<and> mclass \<le> SHMBUF_CHUNKSZ_MAX_BIT)
      then (Inl OutOfBounds, fl, m)
      else if fl ! (mclass - SHMBUF_CHUNKSZ_MIN_BIT) = []
      then if mclass \<ge> SHMBUF_CHUNKSZ_MAX_BIT then (Inr False, fl, m)
           else (case shmBufferSplitChunk cfg segment_id fl m (mclass + 1) of
                   (Inl e, fl1, m1) \<Rightarrow> (Inl e, fl1, m1)
                 | (Inr False, fl1, m1) \<Rightarrow> (Inr False, fl1, m1)
                 | (Inr True, fl1, m1) \<Rightarrow> split_halves cfg segment_id fl1 m1 mclass)
      else split_halves cfg segment_id fl m mclass)"
  by pat_completeness auto
termination
  by (relation "measure (\<lambda>(cfg, segment_id, fl, m, mclass). SHMBUF_CHUNKSZ_MAX_BIT - mclass)")
     auto

declare shmBufferSplitChunk.simps [simp del]

text \<open>
  \<^verbatim>\<open>__shmBufferAllocChunkFromSegment\<close>. \<^verbatim>\<open>Size\<close> is a 64-bit unsigned integer, so the
  padded size is computed modulo \<open>2 ^ 64\<close>. \<open>None\<close> is the NULL the function returns
  when no chunk can be split off. The trailing guard is the one store whose address
  depends on the request: when it falls outside the segment of the chunk the call
  does not return (\<open>MemoryFault\<close>), with the chunk popped and its header written but
  not yet counted as active.
\<close>

definition alloc_class :: "64 word \<Rightarrow> nat" where
  "alloc_class required = get_next_log2 (unat (word_of_nat off_data + required + 4))"

definition alloc_take ::
  "config \<Rightarrow> state \<Rightarrow> nat \<Rightarrow> 64 word \<Rightarrow> nat \<Rightarrow> nat list list \<Rightarrow> memory \<Rightarrow>
     (error + nat option) \<times> state" where
  "alloc_take cfg s segment_id required mclass fl m =
     (let seg = segments s ! segment_id;
          mindex = mclass - SHMBUF_CHUNKSZ_MIN_BIT in
      if fl ! mindex = []
      then (Inl EmptyListPop, set_seg (s\<lparr>mem := m\<rparr>) segment_id (seg\<lparr>free_chunks := fl\<rparr>))
      else
        let chunk = hd (fl ! mindex);
            fl1 = fl[mindex := tl (fl ! mindex)];
            s1 = set_seg (s\<lparr>mem := m\<rparr>) segment_id (seg\<lparr>free_chunks := fl1\<rparr>) in
        if assert_checking cfg \<and>
           \<not> (chunk_mclass m chunk = mclass \<and>
              SHMBUF_CHUNK_MAGIC_HEAD m chunk = SHMBUF_CHUNK_MAGIC_CODE)
        then (Inl AssertFailure, s1)
        else
          let m1 = memset m chunk 0 16;
              m2 = store64 m1 (chunk + off_required) (unat required);
              m3 = store64 m2 (chunk + off_seg) (segment_addr cfg segment_id);
              tail_addr = magic_tail_addr chunk (chunk_required m3 chunk) in
          if \<not> in_segment cfg segment_id tail_addr 4
          then (Inl MemoryFault,
                set_seg (s\<lparr>mem := m3\<rparr>) segment_id (seg\<lparr>free_chunks := fl1\<rparr>))
          else
            let m4 = store32 m3 tail_addr SHMBUF_CHUNK_MAGIC_CODE in
            (Inr (Some chunk),
             set_seg (s\<lparr>mem := m4\<rparr>) segment_id
               (seg\<lparr>free_chunks := fl1, num_actives := num_actives seg + 1\<rparr>)))"

definition shmBufferAllocChunkFromSegment ::
  "config \<Rightarrow> state \<Rightarrow> nat \<Rightarrow> 64 word \<Rightarrow> (error + nat option) \<times> state" where
  "shmBufferAllocChunkFromSegment cfg s segment_id required =
     (if \<not> segment_id < length (segments s) then (Inl OutOfBounds, s)
      else
        let seg = segments s ! segment_id;
            mclass0 = alloc_class required in
        if \<not> mclass0 < SHMBUF_CHUNKSZ_MIN_BIT \<and> mclass0 > SHMBUF_CHUNKSZ_MAX_BIT
        then (Inl TooLarge, s)
        else
          let mclass = (if mclass0 < SHMBUF_CHUNKSZ_MIN_BIT
                        then SHMBUF_CHUNKSZ_MIN_BIT else mclass0);
              mindex = mclass - SHMBUF_CHUNKSZ_MIN_BIT in
          if free_chunks seg ! mindex = []
          then (case shmBufferSplitChunk cfg segment_id (free_chunks seg) (mem s) (mclass + 1) of
                  (Inl e, fl1, m1) \<Rightarrow>
                    (Inl e, set_seg (s\<lparr>mem := m1\<rparr>) segment_id (seg\<lparr>free_chunks := fl1\<rparr>))
                | (Inr False, fl1, m1) \<Rightarrow>
                    (Inr None, set_seg (s\<lparr>mem := m1\<rparr>) segment_id (seg\<lparr>free_chunks := fl1\<rparr>))
                | (Inr True, fl1, m1) \<Rightarrow>
                    alloc_take cfg s segment_id required mclass fl1 m1)
          else alloc_take cfg s segment_id required mclass (free_chunks seg) (mem s))"

text \<open>\<^verbatim>\<open>shmBufferAllocChunk\<close>: the scan of the active list, then one new segment.\<close>

fun alloc_scan ::
  "config \<Rightarrow> state \<Rightarrow> nat list \<Rightarrow> 64 word \<Rightarrow> (error + nat option) \<times> state" where
  "alloc_scan cfg s [] required = (Inr None, s)"
| "alloc_scan cfg s (segment_id # rest) required =
     (case shmBufferAllocChunkFromSegment cfg s segment_id required of
        (Inl e, s1) \<Rightarrow> (Inl e, s1)
      | (Inr (Some chunk), s1) \<Rightarrow> (Inr (Some chunk), s1)
      | (Inr None, s1) \<Rightarrow> alloc_scan cfg s1 rest required)"

definition shmBufferAllocChunk ::
  "config \<Rightarrow> os_env \<Rightarrow> state \<Rightarrow> 64 word \<Rightarrow> (error + nat option) \<times> state" where
  "shmBufferAllocChunk cfg os s required =
     (case alloc_scan cfg s (active_segment_list s) required of
        (Inl e, s1) \<Rightarrow> (Inl e, s1)
      | (Inr (Some chunk), s1) \<Rightarrow> (Inr (Some chunk), s1)
      | (Inr None, s1) \<Rightarrow>
          (case shmBufferCreateSegment cfg os s1 of
             (Inl e, s2) \<Rightarrow> (Inl e, s2)
           | (Inr segment_id, s2) \<Rightarrow>
               (case shmBufferAllocChunkFromSegment cfg
                       (s2\<lparr>active_segment_list := segment_id # active_segment_list s2\<rparr>)
                       segment_id required of
                  (Inl e, s3) \<Rightarrow> (Inl e, s3)
                | (Inr None, s3) \<Rightarrow> (Inl OutOfMemory, s3)
                | (Inr (Some chunk), s3) \<Rightarrow> (Inr (Some chunk), s3))))"

text \<open>
  \<^verbatim>\<open>PG_CATCH\<close> sees what \<^verbatim>\<open>ereport(ERROR)\<close> and \<^verbatim>\<open>elog(ERROR)\<close> throw; a FATAL exit, a
  failed assertion and a stuck spinlock do not come back to it.
\<close>

fun caught_by_PG_CATCH :: "error \<Rightarrow> bool" where
  "caught_by_PG_CATCH OutOfMemory = True"
| "caught_by_PG_CATCH TooLarge = True"
| "caught_by_PG_CATCH ElogError = True"
| "caught_by_PG_CATCH _ = False"

text \<open>
  \<^verbatim>\<open>shmbufAlloc\<close>. \<^verbatim>\<open>SpinLockAcquire\<close> on a lock that is taken busy-waits until it is
  released; when the caller itself holds it, that is forever (PostgreSQL ends the wait
  with a PANIC), which the model records as \<open>StuckSpinLock\<close>.
\<close>

definition shmbufAlloc ::
  "config \<Rightarrow> os_env \<Rightarrow> state \<Rightarrow> 64 word \<Rightarrow> (error + nat option) \<times> state" where
  "shmbufAlloc cfg os s sz =
     (if lock s then (Inl StuckSpinLock, s)
      else case shmBufferAllocChunk cfg os (s\<lparr>lock := True\<rparr>) sz of
             (Inl e, s1) \<Rightarrow>
               (Inl e, if caught_by_PG_CATCH e then s1\<lparr>lock := False\<rparr> else s1)
           | (Inr None, s1) \<Rightarrow> (Inr None, s1\<lparr>lock := False\<rparr>)
           | (Inr (Some chunk), s1) \<Rightarrow> (Inr (Some (chunk + off_data)), s1\<lparr>lock := False\<rparr>))"

text \<open>
  \<^verbatim>\<open>shmbufAllocZero\<close>: \<^verbatim>\<open>memset(addr, 0, sz)\<close> on the pointer \<^verbatim>\<open>shmbufAlloc\<close> returned.
  The slot of the pointer is the quotient of its offset in the reserved range, as in
  \<^verbatim>\<open>shmbufFree\<close>. When the \<open>sz\<close> bytes do not end inside that segment, the fill runs
  off the segment and the call does not return (\<open>MemoryFault\<close>); how far the fill has
  got by then is not modelled, the state is the one \<^verbatim>\<open>shmbufAlloc\<close> left.
\<close>

definition shmbufAllocZero ::
  "config \<Rightarrow> os_env \<Rightarrow> state \<Rightarrow> 64 word \<Rightarrow> (error + nat option) \<times> state" where
  "shmbufAllocZero cfg os s sz =
     (case shmbufAlloc cfg os s sz of
        (Inr (Some addr), s1) \<Rightarrow>
          if \<not> in_segment cfg
                 ((addr - shmbuf_segment_vaddr_head cfg) div shmbuf_segment_size cfg)
                 addr (unat sz)
          then (Inl MemoryFault, s1)
          else (Inr (Some addr), s1\<lparr>mem := memset (mem s1) addr 0 (unat sz)\<rparr>)
      | r \<Rightarrow> r)"


section \<open>Freeing a chunk\<close>

text \<open>
  One merge step writes the buddy's or the chunk's header to zero and raises the class
  of the chunk that stays: \<^verbatim>\<open>memset(buddy, 0, ...); chunk->mclass++\<close>, or
  \<^verbatim>\<open>memset(chunk, 0, ...); chunk = buddy; chunk->mclass++\<close>.
\<close>

definition merge_mem :: "memory \<Rightarrow> nat \<Rightarrow> nat \<Rightarrow> memory" where
  "merge_mem m gone kept =
     store32 (memset m gone 0 off_data) (kept + off_mclass)
       (chunk_mclass (memset m gone 0 off_data) kept + 1)"

text \<open>
  The loop of \<^verbatim>\<open>shmBufferFreeChunk\<close> (lines 610-652). The class is read from the header
  on every round, so on a damaged header nothing bounds the number of rounds: the loop
  is a partial function, and \<open>None\<close> is a loop that does not end.
\<close>

partial_function (option) free_merge ::
  "config \<Rightarrow> nat \<Rightarrow> nat list list \<Rightarrow> memory \<Rightarrow> nat \<Rightarrow> ((error + nat) \<times> nat list list \<times> memory) option" where
  "free_merge cfg segment_id fl m chunk =
     (if chunk_mclass m chunk \<le> SHMBUF_CHUNKSZ_MAX_BIT
      then
        if (chunk - shmBufferSegmentMmapPtr cfg segment_id) AND 2 ^ chunk_mclass m chunk = 0
        then
          if chunk + 2 ^ chunk_mclass m chunk
               \<ge> shmBufferSegmentMmapPtr cfg segment_id + shmbuf_segment_size cfg
          then Some (Inr chunk, fl, m)
          else if assert_checking cfg \<and>
                  SHMBUF_CHUNK_MAGIC_HEAD m (chunk + 2 ^ chunk_mclass m chunk)
                    \<noteq> SHMBUF_CHUNK_MAGIC_CODE
          then Some (Inl AssertFailure, fl, m)
          else if chunk_mclass m (chunk + 2 ^ chunk_mclass m chunk) \<noteq> chunk_mclass m chunk \<or>
                  \<not> chain_is_linked m (chunk + 2 ^ chunk_mclass m chunk)
          then Some (Inr chunk, fl, m)
          else free_merge cfg segment_id
                 (dlist_delete fl (chunk + 2 ^ chunk_mclass m chunk))
                 (merge_mem m (chunk + 2 ^ chunk_mclass m chunk) chunk)
                 chunk
        else
          if chunk < 2 ^ chunk_mclass m chunk \<or>
             chunk - 2 ^ chunk_mclass m chunk < shmBufferSegmentMmapPtr cfg segment_id
          then Some (Inr chunk, fl, m)
          else if assert_checking cfg \<and>
                  SHMBUF_CHUNK_MAGIC_HEAD m (chunk - 2 ^ chunk_mclass m chunk)
                    \<noteq> SHMBUF_CHUNK_MAGIC_CODE
          then Some (Inl AssertFailure, fl, m)
          else if chunk_mclass m (chunk - 2 ^ chunk_mclass m chunk) \<noteq> chunk_mclass m chunk \<or>
                  \<not> chain_is_linked m (chunk - 2 ^ chunk_mclass m chunk)
          then Some (Inr chunk, fl, m)
          else free_merge cfg segment_id
                 (dlist_delete fl (chunk - 2 ^ chunk_mclass m chunk))
                 (merge_mem m chunk (chunk - 2 ^ chunk_mclass m chunk))
                 (chunk - 2 ^ chunk_mclass m chunk)
      else Some (Inr chunk, fl, m))"

text \<open>
  \<^verbatim>\<open>shmBufferFreeChunk\<close>: the assertion on the class and the two guards, the merge loop,
  the push on the free list, the active count. The result is whether the segment has
  no active chunk left.
\<close>

definition free_push ::
  "config \<Rightarrow> state \<Rightarrow> nat \<Rightarrow> nat list list \<Rightarrow> memory \<Rightarrow> nat \<Rightarrow> (error + bool) \<times> state" where
  "free_push cfg s segment_id fl m chunk =
     (let seg = segments s ! segment_id;
          mclass = chunk_mclass m chunk in
      if \<not> (SHMBUF_CHUNKSZ_MIN_BIT \<le> mclass \<and> mclass \<le> SHMBUF_CHUNKSZ_MAX_BIT)
      then (Inl OutOfBounds, set_seg (s\<lparr>mem := m\<rparr>) segment_id (seg\<lparr>free_chunks := fl\<rparr>))
      else
        let mindex = mclass - SHMBUF_CHUNKSZ_MIN_BIT;
            fl1 = dlist_push_head fl mindex chunk;
            m1 = chain_link m chunk (free_chunks_addr cfg segment_id mindex);
            s1 = set_seg (s\<lparr>mem := m1\<rparr>) segment_id (seg\<lparr>free_chunks := fl1\<rparr>) in
        if assert_checking cfg \<and> \<not> num_actives seg > 0 then (Inl AssertFailure, s1)
        else (Inr (num_actives seg - 1 = 0),
              set_seg (s\<lparr>mem := m1\<rparr>) segment_id
                (seg\<lparr>free_chunks := fl1, num_actives := num_actives seg - 1\<rparr>)))"

definition shmBufferFreeChunk ::
  "config \<Rightarrow> state \<Rightarrow> nat \<Rightarrow> nat \<Rightarrow> ((error + bool) \<times> state) option" where
  "shmBufferFreeChunk cfg s segment_id chunk =
     (let seg = segments s ! segment_id in
      if assert_checking cfg \<and>
         \<not> (chunk_mclass (mem s) chunk \<ge> SHMBUF_CHUNKSZ_MIN_BIT \<and>
            chunk_mclass (mem s) chunk \<le> SHMBUF_CHUNKSZ_MAX_BIT \<and>
            SHMBUF_CHUNK_CHECK_MAGIC (mem s) chunk)
      then Some (Inl AssertFailure, s)
      else case free_merge cfg segment_id (free_chunks seg) (mem s) chunk of
             None \<Rightarrow> None
           | Some (Inl e, fl, m) \<Rightarrow>
               Some (Inl e, set_seg (s\<lparr>mem := m\<rparr>) segment_id (seg\<lparr>free_chunks := fl\<rparr>))
           | Some (Inr chunk', fl, m) \<Rightarrow> Some (free_push cfg s segment_id fl m chunk'))"

text \<open>
  \<^verbatim>\<open>shmbufFree\<close>: the chunk is 40 bytes before the pointer, the slot is the quotient of
  its offset in the reserved range; the segment that has no active chunk left is taken
  off the active list, dropped and put on the free list.
\<close>

definition shmbufFree ::
  "config \<Rightarrow> os_env \<Rightarrow> state \<Rightarrow> nat \<Rightarrow> (error option \<times> state) option" where
  "shmbufFree cfg os s addr =
     (let chunk = addr - off_data;
          segment_id = (chunk - shmbuf_segment_vaddr_head cfg) div shmbuf_segment_size cfg in
      if assert_checking cfg \<and>
         \<not> (off_data \<le> addr \<and> shmbuf_segment_vaddr_head cfg \<le> chunk \<and>
            chunk < shmbuf_segment_vaddr_tail cfg \<and>
            segment_id < shmbuf_num_logical_segment cfg)
      then Some (Some AssertFailure, s)
      else if \<not> (off_data \<le> addr \<and> shmbuf_segment_vaddr_head cfg \<le> chunk \<and>
                 segment_id < length (segments s) \<and> segment_id < length (local_maps s) \<and>
                 0 < shmbuf_segment_size cfg)
      then Some (Some OutOfBounds, s)
      else if lock s then Some (Some StuckSpinLock, s)
      else case shmBufferFreeChunk cfg (s\<lparr>lock := True\<rparr>) segment_id chunk of
             None \<Rightarrow> None
           | Some (Inl e, s1) \<Rightarrow> Some (Some e, s1)
           | Some (Inr False, s1) \<Rightarrow> Some (None, s1\<lparr>lock := False\<rparr>)
           | Some (Inr True, s1) \<Rightarrow>
               (case shmBufferDropSegment cfg os
                       (s1\<lparr>active_segment_list := remove1 segment_id (active_segment_list s1)\<rparr>)
                       segment_id of
                  (Some e, s2) \<Rightarrow> Some (Some e, s2)
                | (None, s2) \<Rightarrow>
                    Some (None, s2\<lparr>free_segment_list := segment_id # free_segment_list s2,
                                    lock := False\<rparr>)))"


section \<open>What an allocation leaves alone\<close>

definition same_directory :: "state \<Rightarrow> state \<Rightarrow> bool" where
  "same_directory s s' =
     (lock s' = lock s \<and> active_segment_list s' = active_segment_list s \<and>
      free_segment_list s' = free_segment_list s \<and> local_maps s' = local_maps s \<and>
      shm_files s' = shm_files s \<and> length (segments s') = length (segments s))"

lemma same_directory_refl: "same_directory s s"
  by (simp add: same_directory_def)

lemma same_directory_trans: "same_directory s s1 \<Longrightarrow> same_directory s1 s2 \<Longrightarrow> same_directory s s2"
  by (simp add: same_directory_def)

lemma same_directory_set_seg: "same_directory s (set_seg (s\<lparr>mem := m\<rparr>) sid seg)"
  by (simp add: same_directory_def set_seg_def)

lemma alloc_take_frame:
  "same_directory s (snd (alloc_take cfg s sid req mclass fl m))"
  by (simp add: alloc_take_def Let_def same_directory_set_seg)

lemma alloc_from_segment_frame:
  "same_directory s (snd (shmBufferAllocChunkFromSegment cfg s sid req))"
  by (simp add: shmBufferAllocChunkFromSegment_def Let_def same_directory_refl
        same_directory_set_seg alloc_take_frame split: prod.split sum.split bool.split)

lemma alloc_scan_frame:
  "same_directory s (snd (alloc_scan cfg s xs req))"
proof (induction xs arbitrary: s)
  case Nil
  show ?case by (simp add: same_directory_refl)
next
  case (Cons sid xs)
  obtain r s1 where a: "shmBufferAllocChunkFromSegment cfg s sid req = (r, s1)"
    by (cases "shmBufferAllocChunkFromSegment cfg s sid req")
  have f: "same_directory s s1" using alloc_from_segment_frame [of s cfg sid req] a by simp
  show ?case
  proof (cases r)
    case (Inl e)
    then show ?thesis using a f by simp
  next
    case (Inr c)
    then show ?thesis using a f Cons.IH [of s1]
      by (cases c) (auto intro: same_directory_trans)
  qed
qed

lemma alloc_chunk_never_null: "fst (shmBufferAllocChunk cfg os s sz) \<noteq> Inr None"
  by (simp add: shmBufferAllocChunk_def split: prod.split sum.split option.split)

lemma shmbufAlloc_never_null: "fst (shmbufAlloc cfg os s sz) \<noteq> Inr None"
proof (cases "lock s")
  case True
  then show ?thesis by (simp add: shmbufAlloc_def)
next
  case False
  obtain r s1 where a: "shmBufferAllocChunk cfg os (s\<lparr>lock := True\<rparr>) sz = (r, s1)"
    by (cases "shmBufferAllocChunk cfg os (s\<lparr>lock := True\<rparr>) sz")
  then have "r \<noteq> Inr None" using alloc_chunk_never_null [of cfg os "s\<lparr>lock := True\<rparr>" sz] by simp
  then show ?thesis using False a
    by (cases r) (auto simp: shmbufAlloc_def split: option.split)
qed



section \<open>Allocation on concrete states\<close>

text \<open>
  The state after start-up with the pre-created segment on the active list, and the
  free lists of that segment after a 32 MB chunk has been split down to 128 bytes.
\<close>

definition one_active :: state where
  "one_active = after_startup\<lparr>active_segment_list := [0]\<rparr>"

definition split_lists :: "nat list list" where
  "split_lists =
     (replicate 26 [])
       [18 := [], 17 := [0x7f0000000000 + 2 ^ 24], 16 := [0x7f0000000000 + 2 ^ 23],
        15 := [0x7f0000000000 + 2 ^ 22], 14 := [0x7f0000000000 + 2 ^ 21],
        13 := [0x7f0000000000 + 2 ^ 20], 12 := [0x7f0000000000 + 2 ^ 19],
        11 := [0x7f0000000000 + 2 ^ 18], 10 := [0x7f0000000000 + 2 ^ 17],
        9 := [0x7f0000000000 + 2 ^ 16], 8 := [0x7f0000000000 + 2 ^ 15],
        7 := [0x7f0000000000 + 2 ^ 14], 6 := [0x7f0000000000 + 2 ^ 13],
        5 := [0x7f0000000000 + 2 ^ 12], 4 := [0x7f0000000000 + 2 ^ 11],
        3 := [0x7f0000000000 + 2 ^ 10], 2 := [0x7f0000000000 + 2 ^ 9],
        1 := [0x7f0000000000 + 2 ^ 8], 0 := [0x7f0000000000, 0x7f0000000000 + 128]]"

lemma after_startup_free_chunks:
  "free_chunks (segments after_startup ! 0) = (replicate 26 [])[18 := [0x7f0000000000]]"
  by (simp add: create_eval_defs segment_fill.simps dlist_push_tail_def)

lemma split_after_startup:
  "fst (shmBufferSplitChunk cfg0 0 ((replicate 26 [])[18 := [0x7f0000000000]]) m 8) = Inr True \<and>
   fst (snd (shmBufferSplitChunk cfg0 0 ((replicate 26 [])[18 := [0x7f0000000000]]) m 8)) = split_lists"
  by (simp add: shmBufferSplitChunk.simps split_halves_def cfg0_def SHMBUF_CHUNKSZ_MAX_BIT_def
        SHMBUF_CHUNKSZ_MIN_BIT_def Let_def dlist_push_tail_def split_lists_def)

lemma alloc_take_tail_addr_nat:
  assumes "v < 2 ^ 64"
  shows "magic_tail_addr c
           (chunk_required (store64 (store64 m1 (c + off_required) v) (c + off_seg) a) c)
         = magic_tail_addr c v"
proof -
  have "v mod 2 ^ 64 = v" using assms by simp
  then have "chunk_required (store64 (store64 m1 (c + off_required) v) (c + off_seg) a) c = v"
    by (simp add: chunk_required_def off_required_def off_seg_def load_store_simps)
  then show ?thesis by simp
qed

lemma alloc_take_tail_addr:
  "magic_tail_addr c
     (chunk_required (store64 (store64 m1 (c + off_required) (unat (n :: 64 word))) (c + off_seg) a) c)
     = magic_tail_addr c (unat n)"
proof -
  have "unat n < 2 ^ LENGTH(64)" by (rule unsigned_less)
  then have "unat n < 2 ^ 64" by simp
  then show ?thesis by (rule alloc_take_tail_addr_nat)
qed

lemma in_segment_cfg0:
  "in_segment cfg0 0 a n = (0x7f0000000000 \<le> a \<and> a + n \<le> 0x7f0000000000 + 33554432)"
  by (simp add: in_segment_def shmBufferSegmentMmapPtr_def cfg0_def)

lemma one_active_alloc_min_class:
  assumes "alloc_class sz \<le> 7"
    and "in_segment cfg0 0 (magic_tail_addr 0x7f0000000000 (unat sz)) 4"
  shows "fst (shmbufAlloc cfg0 os_ok one_active sz) = Inr (Some (0x7f0000000000 + 40))"
proof -
  let ?fl = "(replicate 26 [])[18 := [0x7f0000000000]]"
  let ?s = "one_active\<lparr>lock := True\<rparr>"
  obtain r fl M where sp: "shmBufferSplitChunk cfg0 0 ?fl (mem after_startup) 8 = (r, fl, M)"
    by (cases "shmBufferSplitChunk cfg0 0 ?fl (mem after_startup) 8") auto
  with split_after_startup [of "mem after_startup"]
  have sp': "shmBufferSplitChunk cfg0 0 ?fl (mem after_startup) 8 = (Inr True, split_lists, M)"
    by simp
  have "fst (shmBufferAllocChunkFromSegment cfg0 ?s 0 sz) = Inr (Some 0x7f0000000000)"
    using assms sp'
    by (simp add: shmBufferAllocChunkFromSegment_def one_active_def after_startup_fields
          after_startup_free_chunks SHMBUF_CHUNKSZ_MAX_BIT_def SHMBUF_CHUNKSZ_MIN_BIT_def Let_def
          alloc_take_def split_lists_def upt_rec cfg0_def alloc_take_tail_addr)
  then obtain s1 where "shmBufferAllocChunkFromSegment cfg0 ?s 0 sz = (Inr (Some 0x7f0000000000), s1)"
    by (cases "shmBufferAllocChunkFromSegment cfg0 ?s 0 sz") auto
  then have "shmBufferAllocChunk cfg0 os_ok ?s sz = (Inr (Some 0x7f0000000000), s1)"
    by (simp add: shmBufferAllocChunk_def one_active_def)
  then show ?thesis
    by (simp add: shmbufAlloc_def one_active_def after_startup_fields off_data_def)
qed


lemma alloc_class_small: "alloc_class 50 = 7"
  by (simp add: alloc_class_def get_next_log2_def off_data_def bit_length.simps)


lemma one_active_alloc_fault:
  assumes "alloc_class sz \<le> 7"
    and "\<not> in_segment cfg0 0 (magic_tail_addr 0x7f0000000000 (unat sz)) 4"
  shows "fst (shmbufAlloc cfg0 os_ok one_active sz) = Inl MemoryFault"
proof -
  let ?fl = "(replicate 26 [])[18 := [0x7f0000000000]]"
  let ?s = "one_active\<lparr>lock := True\<rparr>"
  obtain r fl M where sp: "shmBufferSplitChunk cfg0 0 ?fl (mem after_startup) 8 = (r, fl, M)"
    by (cases "shmBufferSplitChunk cfg0 0 ?fl (mem after_startup) 8") auto
  with split_after_startup [of "mem after_startup"]
  have sp': "shmBufferSplitChunk cfg0 0 ?fl (mem after_startup) 8 = (Inr True, split_lists, M)"
    by simp
  have "fst (shmBufferAllocChunkFromSegment cfg0 ?s 0 sz) = Inl MemoryFault"
    using assms sp'
    by (simp add: shmBufferAllocChunkFromSegment_def one_active_def after_startup_fields
          after_startup_free_chunks SHMBUF_CHUNKSZ_MAX_BIT_def SHMBUF_CHUNKSZ_MIN_BIT_def Let_def
          alloc_take_def split_lists_def upt_rec cfg0_def alloc_take_tail_addr)
  then obtain s1 where "shmBufferAllocChunkFromSegment cfg0 ?s 0 sz = (Inl MemoryFault, s1)"
    by (cases "shmBufferAllocChunkFromSegment cfg0 ?s 0 sz") auto
  then have "shmBufferAllocChunk cfg0 os_ok ?s sz = (Inl MemoryFault, s1)"
    by (simp add: shmBufferAllocChunk_def one_active_def)
  then show ?thesis
    by (simp add: shmbufAlloc_def one_active_def after_startup_fields)
qed

lemma after_startup_alloc_stuck:
  "shmbufAlloc cfg0 os_ok after_startup sz = (Inl StuckSpinLock, after_startup\<lparr>lock := True\<rparr>)"
  by (simp add: shmbufAlloc_def shmBufferAllocChunk_def after_startup_fields
        shmBufferCreateSegment_def create_pick_def)

lemma alloc_class_wrapped: "alloc_class 0xFFFFFFFFFFFFFFD4 = 0"
  by (simp add: alloc_class_def get_next_log2_def off_data_def)

section \<open>The directory lock in an allocation\<close>

text \<open>
  C2. The claim says that an allocation never takes the directory lock while it holds
  it. On the state right after start-up (no active segment) \<^verbatim>\<open>shmbufAlloc\<close> takes the
  lock, finds no segment to scan, and \<^verbatim>\<open>shmBufferCreateSegment\<close> takes the same lock
  again: the call neither returns nor raises, and the lock stays taken.
\<close>

theorem alloc_takes_lock_twice:
  "\<not> lock after_startup \<and> active_segment_list after_startup = [] \<and>
   shmbufAlloc cfg0 os_ok after_startup 50 = (Inl StuckSpinLock, after_startup\<lparr>lock := True\<rparr>)"
  by (simp add: shmbufAlloc_def shmBufferAllocChunk_def after_startup_fields
        shmBufferCreateSegment_def create_pick_def)

text \<open>
  C3. The claim says that when no active segment can serve the request, one new segment
  is created, pushed on the active list and tried once. Whenever the scan ends without
  a chunk, the creation is entered with the directory lock held and stops at its own
  \<^verbatim>\<open>SpinLockAcquire\<close>: no segment is created, and both lists stay as they were.
\<close>

theorem alloc_new_segment_self_deadlock:
  assumes "\<not> lock s"
    and "fst (alloc_scan cfg (s\<lparr>lock := True\<rparr>) (active_segment_list s) sz) = Inr None"
  shows "fst (shmbufAlloc cfg os s sz) = Inl StuckSpinLock
       \<and> active_segment_list (snd (shmbufAlloc cfg os s sz)) = active_segment_list s
       \<and> free_segment_list (snd (shmbufAlloc cfg os s sz)) = free_segment_list s
       \<and> lock (snd (shmbufAlloc cfg os s sz))"
proof -
  let ?s0 = "s\<lparr>lock := True\<rparr>"
  obtain s1 where sc: "alloc_scan cfg ?s0 (active_segment_list s) sz = (Inr None, s1)"
    using assms(2) by (cases "alloc_scan cfg ?s0 (active_segment_list s) sz") simp
  have f: "same_directory ?s0 s1" using alloc_scan_frame [of ?s0 cfg "active_segment_list s" sz] sc by simp
  then have l: "lock s1" by (simp add: same_directory_def)
  then have c: "shmBufferCreateSegment cfg os s1 = (Inl StuckSpinLock, s1)"
    by (simp add: shmBufferCreateSegment_def create_pick_def)
  have "shmbufAlloc cfg os s sz = (Inl StuckSpinLock, s1)"
    using assms(1) sc c by (simp add: shmbufAlloc_def shmBufferAllocChunk_def)
  then show ?thesis using f l by (simp add: same_directory_def)
qed


theorem alloc_new_segment_self_deadlock_witness:
  "\<not> lock one_active
   \<and> fst (alloc_scan cfg0 (one_active\<lparr>lock := True\<rparr>) (active_segment_list one_active)
           33554432) = Inr None
   \<and> fst (shmbufAlloc cfg0 os_ok one_active 33554432) = Inl StuckSpinLock
   \<and> active_segment_list (snd (shmbufAlloc cfg0 os_ok one_active 33554432)) = [0]
   \<and> free_segment_list (snd (shmbufAlloc cfg0 os_ok one_active 33554432))
       = [1, 2, 3, 4, 5, 6, 7, 8, 9]"
proof -
  have l: "\<not> lock one_active" by (simp add: one_active_def after_startup_fields)
  have c: "alloc_class 33554432 = 26"
    by (simp add: alloc_class_def get_next_log2_def off_data_def bit_length.simps)
  have sc: "fst (alloc_scan cfg0 (one_active\<lparr>lock := True\<rparr>) (active_segment_list one_active)
                  33554432) = Inr None"
    by (simp add: one_active_def after_startup_fields shmBufferAllocChunkFromSegment_def c
          after_startup_free_chunks SHMBUF_CHUNKSZ_MAX_BIT_def SHMBUF_CHUNKSZ_MIN_BIT_def
          Let_def shmBufferSplitChunk.simps cfg0_def)
  have a: "active_segment_list one_active = [0]"
    "free_segment_list one_active = [1, 2, 3, 4, 5, 6, 7, 8, 9]"
    by (simp_all add: one_active_def after_startup_fields)
  from alloc_new_segment_self_deadlock [OF l sc, of os_ok] l sc show ?thesis
    unfolding a by blast
qed

text \<open>
  C4. The claim says that \<open>allocate(n)\<close> raises TooLarge exactly when header, \<open>n\<close> and
  trailer together need a class above 32, whatever the segments hold. The sum is
  computed in 64 bits, and the size is looked at only once a segment is at hand:

  \<^item> for \<open>n = 2 ^ 64 - 16\<close> the three need class 65, the sum wraps to 28, the request
    is taken for one of the smallest class, and on a segment that is all free the
    call returns the payload of a 128-byte chunk;
  \<^item> for \<open>n = 2 ^ 64 - 44\<close> they need class 64, the sum wraps to 0, the request is again
    taken for the smallest class, and the trailing guard of the first chunk of the
    segment falls 4 bytes below the segment: the call ends in the store, not in
    TooLarge;
  \<^item> for \<open>n = 2 ^ 32\<close> they need class 33, and with no active segment the call stops
    on the directory lock before the size is looked at.
\<close>

theorem too_large_missed_on_wrap:
  "get_next_log2 (off_data + unat (0xFFFFFFFFFFFFFFF0 :: 64 word) + 4) = 65
   \<and> alloc_class 0xFFFFFFFFFFFFFFF0 = 5
   \<and> fst (shmbufAlloc cfg0 os_ok one_active 0xFFFFFFFFFFFFFFF0) = Inr (Some (0x7f0000000000 + 40))
   \<and> get_next_log2 (off_data + unat (0xFFFFFFFFFFFFFFD4 :: 64 word) + 4) = 64
   \<and> alloc_class 0xFFFFFFFFFFFFFFD4 = 0
   \<and> magic_tail_addr 0x7f0000000000 (unat (0xFFFFFFFFFFFFFFD4 :: 64 word)) = 0x7f0000000000 - 4
   \<and> fst (shmbufAlloc cfg0 os_ok one_active 0xFFFFFFFFFFFFFFD4) = Inl MemoryFault
   \<and> get_next_log2 (off_data + unat (0x100000000 :: 64 word) + 4) = 33
   \<and> alloc_class 0x100000000 = 33
   \<and> fst (shmbufAlloc cfg0 os_ok after_startup 0x100000000) = Inl StuckSpinLock"
proof -
  have a: "get_next_log2 (off_data + unat (0xFFFFFFFFFFFFFFF0 :: 64 word) + 4) = 65"
    by (simp add: get_next_log2_def off_data_def bit_length.simps)
  have b: "alloc_class 0xFFFFFFFFFFFFFFF0 = 5"
    by (simp add: alloc_class_def get_next_log2_def off_data_def bit_length.simps)
  have c: "fst (shmbufAlloc cfg0 os_ok one_active 0xFFFFFFFFFFFFFFF0)
             = Inr (Some (0x7f0000000000 + 40))"
    by (rule one_active_alloc_min_class)
       (simp_all add: b in_segment_cfg0 magic_tail_addr_def off_data_def)
  have d: "get_next_log2 (off_data + unat (0xFFFFFFFFFFFFFFD4 :: 64 word) + 4) = 64"
    by (simp add: get_next_log2_def off_data_def bit_length.simps)
  have e: "magic_tail_addr 0x7f0000000000 (unat (0xFFFFFFFFFFFFFFD4 :: 64 word))
             = 0x7f0000000000 - 4"
    by (simp add: magic_tail_addr_def off_data_def)
  have f: "fst (shmbufAlloc cfg0 os_ok one_active 0xFFFFFFFFFFFFFFD4) = Inl MemoryFault"
    by (rule one_active_alloc_fault)
       (simp_all add: alloc_class_wrapped in_segment_cfg0 magic_tail_addr_def off_data_def)
  have g: "get_next_log2 (off_data + unat (0x100000000 :: 64 word) + 4) = 33"
    by (simp add: get_next_log2_def off_data_def bit_length.simps)
  have h: "alloc_class 0x100000000 = 33"
    by (simp add: alloc_class_def get_next_log2_def off_data_def bit_length.simps)
  have i: "fst (shmbufAlloc cfg0 os_ok after_startup 0x100000000) = Inl StuckSpinLock"
    by (simp add: after_startup_alloc_stuck)
  show ?thesis
    using a b c d e f g h i alloc_class_wrapped by blast
qed

text \<open>
  \<^verbatim>\<open>shmBufferAllocChunk\<close> never returns NULL, so the NULL branch of \<^verbatim>\<open>shmbufAlloc\<close> is
  dead and neither \<^verbatim>\<open>shmbufAlloc\<close> nor \<^verbatim>\<open>shmbufAllocZero\<close> returns NULL; the first \<open>sz\<close>
  bytes at a pointer that \<^verbatim>\<open>shmbufAllocZero\<close> returns are zero.
\<close>

lemma alloc_never_returns_null:
  "fst (shmBufferAllocChunk cfg os s sz) \<noteq> Inr None \<and>
   fst (shmbufAlloc cfg os s sz) \<noteq> Inr None \<and>
   fst (shmbufAllocZero cfg os s sz) \<noteq> Inr None \<and>
   (shmbufAlloc cfg os s sz = (Inr (Some addr), s') \<longrightarrow> addr \<noteq> 0) \<and>
   (shmbufAllocZero cfg os s sz = (Inr (Some addr), s') \<longrightarrow>
      addr \<noteq> 0 \<and> (\<forall>x. addr \<le> x \<and> x < addr + unat sz \<longrightarrow> mem s' x = 0))"
proof -
  note n = shmbufAlloc_never_null [of cfg os s sz]
  have p: "addr \<noteq> 0" if "shmbufAlloc cfg os s sz = (Inr (Some addr), s1)" for addr s1
    using that
    by (auto simp: shmbufAlloc_def off_data_def split: if_splits prod.splits sum.splits option.splits)
  obtain r s1 where a: "shmbufAlloc cfg os s sz = (r, s1)" by (cases "shmbufAlloc cfg os s sz")
  show ?thesis
  proof (cases r)
    case (Inl e)
    then show ?thesis using a n alloc_chunk_never_null [of cfg os s sz]
      by (simp add: shmbufAllocZero_def)
  next
    case (Inr c)
    then obtain q where c: "c = Some q" using a n by (cases c) auto
    then have "q \<noteq> 0" using p a Inr by simp
    then show ?thesis using a n Inr c alloc_chunk_never_null [of cfg os s sz]
      by (auto simp: shmbufAllocZero_def memset_def split: if_splits)
  qed
qed

lemma wrapped_zero_fill_fault:
  "fst (shmbufAllocZero cfg0 os_ok one_active 0xFFFFFFFFFFFFFFF0) = Inl MemoryFault"
proof -
  have "fst (shmbufAlloc cfg0 os_ok one_active 0xFFFFFFFFFFFFFFF0)
          = Inr (Some (0x7f0000000000 + 40))"
    by (rule one_active_alloc_min_class)
       (simp_all add: alloc_class_def get_next_log2_def off_data_def bit_length.simps
          in_segment_cfg0 magic_tail_addr_def)
  then obtain s1 where "shmbufAlloc cfg0 os_ok one_active 0xFFFFFFFFFFFFFFF0
                          = (Inr (Some (0x7f0000000000 + 40)), s1)"
    by (cases "shmbufAlloc cfg0 os_ok one_active 0xFFFFFFFFFFFFFFF0") auto
  then show ?thesis
    by (simp add: shmbufAllocZero_def in_segment_def shmBufferSegmentMmapPtr_def cfg0_def)
qed

text \<open>
  C10. The claim says that every call of \<open>allocate\<close> and of \<open>allocate_zeroed\<close> returns a
  non-null pointer or raises OutOfMemory or TooLarge. No call returns NULL (the lemma
  above), but there are calls that do neither of the two:

  \<^item> right after start-up no segment is active, and every call, whatever the size,
    stops in \<^verbatim>\<open>shmBufferCreateSegment\<close> on the directory lock that \<^verbatim>\<open>shmbufAlloc\<close>
    holds: no pointer, no error, and the lock stays taken;
  \<^item> on a segment that is all free, \<open>allocate_zeroed(2 ^ 64 - 16)\<close> gets a 128-byte
    chunk from \<^verbatim>\<open>shmbufAlloc\<close> (the size check is missed, C4) and then zero-fills
    \<open>2 ^ 64 - 16\<close> bytes from its payload on: the fill runs off the segment and the
    call ends there.
\<close>

theorem alloc_neither_pointer_nor_error:
  "shmbufAlloc cfg0 os_ok after_startup sz = (Inl StuckSpinLock, after_startup\<lparr>lock := True\<rparr>)
   \<and> shmbufAllocZero cfg0 os_ok after_startup sz
       = (Inl StuckSpinLock, after_startup\<lparr>lock := True\<rparr>)
   \<and> active_segment_list after_startup = []
   \<and> fst (shmbufAlloc cfg0 os_ok one_active 0xFFFFFFFFFFFFFFF0)
       = Inr (Some (0x7f0000000000 + 40))
   \<and> fst (shmbufAllocZero cfg0 os_ok one_active 0xFFFFFFFFFFFFFFF0) = Inl MemoryFault"
proof -
  have a: "shmbufAlloc cfg0 os_ok after_startup sz
             = (Inl StuckSpinLock, after_startup\<lparr>lock := True\<rparr>)"
    by (rule after_startup_alloc_stuck)
  then have b: "shmbufAllocZero cfg0 os_ok after_startup sz
             = (Inl StuckSpinLock, after_startup\<lparr>lock := True\<rparr>)"
    by (simp add: shmbufAllocZero_def)
  have c: "fst (shmbufAlloc cfg0 os_ok one_active 0xFFFFFFFFFFFFFFF0)
             = Inr (Some (0x7f0000000000 + 40))"
    by (rule one_active_alloc_min_class)
       (simp_all add: alloc_class_def get_next_log2_def off_data_def bit_length.simps
          in_segment_cfg0 magic_tail_addr_def)
  show ?thesis
    using a b c wrapped_zero_fill_fault by (simp add: after_startup_fields)
qed


section \<open>The guards at a free\<close>

text \<open>
  A segment whose one chunk of 32 MB is allocated (a request of \<open>2 ^ 25 - 44\<close> bytes),
  and the same state after the word behind the payload has been overwritten with 0.
\<close>

definition whole_allocated :: state where
  "whole_allocated = snd (shmbufAlloc cfg0 os_ok one_active 33554388)"

definition guard_damaged :: state where
  "guard_damaged =
     whole_allocated\<lparr>mem := store32 (mem whole_allocated) (0x7f0000000000 + 40 + 33554388) 0\<rparr>"

lemma alloc_class_whole: "alloc_class 33554388 = 25"
  by (simp add: alloc_class_def get_next_log2_def off_data_def bit_length.simps)

lemma after_startup_mem:
  "mem after_startup =
     chunk_init_free (memset zero_memory 0x7f0000000000 0 (2 ^ 25)) 0x7f0000000000 25
       (free_chunks_addr cfg0 0 18)"
  by (simp add: create_eval_defs segment_fill.simps dlist_push_tail_def)

lemma after_startup_num_actives: "num_actives (segments after_startup ! 0) = 0"
  by (simp add: create_eval_defs)

lemma whole_allocated_eq:
  "shmbufAlloc cfg0 os_ok one_active 33554388 =
     (Inr (Some (0x7f0000000000 + 40)),
      after_startup\<lparr>active_segment_list := [0],
        mem := store32
                 (store64
                    (store64 (memset (mem after_startup) 0x7f0000000000 0 16)
                       (0x7f0000000000 + 16) 33554388)
                    (0x7f0000000000 + 32) (segment_addr cfg0 0))
                 (0x7f0000000000 + 40 + 33554388) SHMBUF_CHUNK_MAGIC_CODE,
        segments := (segments after_startup)
          [0 := (segments after_startup ! 0)\<lparr>free_chunks := (replicate 26 [])[18 := []],
                   num_actives := 1\<rparr>],
        lock := False\<rparr>)"
  by (simp add: shmbufAlloc_def shmBufferAllocChunk_def one_active_def after_startup_fields
      shmBufferAllocChunkFromSegment_def alloc_class_whole after_startup_free_chunks
      SHMBUF_CHUNKSZ_MAX_BIT_def SHMBUF_CHUNKSZ_MIN_BIT_def Let_def alloc_take_def
      set_seg_def off_data_def off_required_def off_seg_def magic_tail_addr_def chunk_required_def
      load_store_simps after_startup_num_actives in_segment_cfg0)
     (simp add: cfg0_def)

lemma whole_allocated_fields:
  "lock whole_allocated = False"
  "active_segment_list whole_allocated = [0]"
  "free_segment_list whole_allocated = [1, 2, 3, 4, 5, 6, 7, 8, 9]"
  "length (segments whole_allocated) = 10"
  "length (local_maps whole_allocated) = 10"
  "local_maps whole_allocated ! 0 = \<lparr>mutex = False, map_revision = 1, is_attached = True\<rparr>"
  "shm_files whole_allocated = [(0, 0)]"
  "segments whole_allocated ! 0 =
     \<lparr>revision = 1, num_actives = 1, free_chunks = (replicate 26 [])[18 := []]\<rparr>"
  by (simp_all add: whole_allocated_def whole_allocated_eq after_startup_fields)

lemma whole_allocated_header:
  "chunk_mclass (mem whole_allocated) 0x7f0000000000 = 25"
  "SHMBUF_CHUNK_MAGIC_HEAD (mem whole_allocated) 0x7f0000000000 = SHMBUF_CHUNK_MAGIC_CODE"
  "chunk_required (mem whole_allocated) 0x7f0000000000 = 33554388"
  "SHMBUF_CHUNK_MAGIC_TAIL (mem whole_allocated) 0x7f0000000000 = SHMBUF_CHUNK_MAGIC_CODE"
  by (simp_all add: whole_allocated_def whole_allocated_eq after_startup_mem chunk_init_free_def
        chain_link_def chunk_mclass_def SHMBUF_CHUNK_MAGIC_HEAD_def chunk_required_def
        SHMBUF_CHUNK_MAGIC_TAIL_def magic_tail_addr_def
        off_data_def off_required_def off_seg_def off_mclass_def off_magic_head_def off_prev_def
        off_next_def load_store_simps SHMBUF_CHUNK_MAGIC_CODE_def)


lemma cfg0_fields:
  "shmbuf_segment_size cfg0 = 33554432"
  "shmbuf_num_logical_segment cfg0 = 10"
  "shmbuf_segment_vaddr_head cfg0 = 0x7f0000000000"
  "shmBufSegHead cfg0 = 0x7e0000000000"
  "assert_checking cfg0 = False"
  by (simp_all add: cfg0_def)

lemma guard_damaged_fields:
  "lock guard_damaged = False"
  "active_segment_list guard_damaged = [0]"
  "free_segment_list guard_damaged = [1, 2, 3, 4, 5, 6, 7, 8, 9]"
  "length (segments guard_damaged) = 10"
  "length (local_maps guard_damaged) = 10"
  "local_maps guard_damaged ! 0 = \<lparr>mutex = False, map_revision = 1, is_attached = True\<rparr>"
  "shm_files guard_damaged = [(0, 0)]"
  "segments guard_damaged ! 0 =
     \<lparr>revision = 1, num_actives = 1, free_chunks = (replicate 26 [])[18 := []]\<rparr>"
  by (simp_all add: guard_damaged_def whole_allocated_fields)

lemma guard_damaged_nonempty:
  "segments guard_damaged \<noteq> []" "local_maps guard_damaged \<noteq> []"
  using guard_damaged_fields(4,5) by auto

lemma guard_damaged_header:
  "chunk_mclass (mem guard_damaged) 0x7f0000000000 = 25"
  "SHMBUF_CHUNK_MAGIC_HEAD (mem guard_damaged) 0x7f0000000000 = SHMBUF_CHUNK_MAGIC_CODE"
  "chunk_required (mem guard_damaged) 0x7f0000000000 = 33554388"
  "SHMBUF_CHUNK_MAGIC_TAIL (mem guard_damaged) 0x7f0000000000 = 0"
  using whole_allocated_header
  by (simp_all add: guard_damaged_def chunk_mclass_def SHMBUF_CHUNK_MAGIC_HEAD_def
        chunk_required_def SHMBUF_CHUNK_MAGIC_TAIL_def magic_tail_addr_def
        off_data_def off_required_def off_mclass_def off_magic_head_def load_store_simps)

definition cfg_assert :: config where
  "cfg_assert = cfg0\<lparr>assert_checking := True\<rparr>"


text \<open>
  C5 (as amended). In a build with assertion checking, \<^verbatim>\<open>shmBufferFreeChunk\<close> checks both
  guards before it touches a free list: when either is wrong the call stops with an
  assertion failure and the state is as it was, and a call that goes on to free the
  chunk has seen both guards intact.
\<close>

theorem free_asserts_both_guards:
  assumes "assert_checking cfg"
  shows "(\<not> SHMBUF_CHUNK_CHECK_MAGIC (mem s) chunk \<longrightarrow>
            shmBufferFreeChunk cfg s segment_id chunk = Some (Inl AssertFailure, s)) \<and>
         (shmBufferFreeChunk cfg s segment_id chunk = Some (Inr b, s') \<longrightarrow>
            SHMBUF_CHUNK_MAGIC_HEAD (mem s) chunk = SHMBUF_CHUNK_MAGIC_CODE \<and>
            SHMBUF_CHUNK_MAGIC_TAIL (mem s) chunk = SHMBUF_CHUNK_MAGIC_CODE) \<and>
         (\<not> lock s \<and> off_data \<le> addr \<and>
          shmbuf_segment_vaddr_head cfg \<le> addr - off_data \<and>
          addr - off_data < shmbuf_segment_vaddr_tail cfg \<and>
          0 < shmbuf_segment_size cfg \<and>
          length (segments s) = shmbuf_num_logical_segment cfg \<and>
          length (local_maps s) = shmbuf_num_logical_segment cfg \<and>
          \<not> SHMBUF_CHUNK_CHECK_MAGIC (mem s) (addr - off_data) \<longrightarrow>
            shmbufFree cfg os s addr = Some (Some AssertFailure, s\<lparr>lock := True\<rparr>))"
proof -
  have bad: "shmBufferFreeChunk cfg t sid c = Some (Inl AssertFailure, t)"
    if "\<not> SHMBUF_CHUNK_CHECK_MAGIC (mem t) c" for t sid c
    using that assms by (simp add: shmBufferFreeChunk_def)
  have good: "SHMBUF_CHUNK_MAGIC_HEAD (mem s) chunk = SHMBUF_CHUNK_MAGIC_CODE \<and>
              SHMBUF_CHUNK_MAGIC_TAIL (mem s) chunk = SHMBUF_CHUNK_MAGIC_CODE"
    if r: "shmBufferFreeChunk cfg s segment_id chunk = Some (Inr b, s')"
  proof -
    have "SHMBUF_CHUNK_CHECK_MAGIC (mem s) chunk"
      using bad [of s chunk segment_id] r by (cases "SHMBUF_CHUNK_CHECK_MAGIC (mem s) chunk") auto
    then show ?thesis by (simp add: SHMBUF_CHUNK_CHECK_MAGIC_def)
  qed
  let ?chunk = "addr - off_data"
  let ?sid = "(?chunk - shmbuf_segment_vaddr_head cfg) div shmbuf_segment_size cfg"
  have facade: "shmbufFree cfg os s addr = Some (Some AssertFailure, s\<lparr>lock := True\<rparr>)"
    if a: "\<not> lock s \<and> off_data \<le> addr \<and>
          shmbuf_segment_vaddr_head cfg \<le> addr - off_data \<and>
          addr - off_data < shmbuf_segment_vaddr_tail cfg \<and>
          0 < shmbuf_segment_size cfg \<and>
          length (segments s) = shmbuf_num_logical_segment cfg \<and>
          length (local_maps s) = shmbuf_num_logical_segment cfg \<and>
          \<not> SHMBUF_CHUNK_CHECK_MAGIC (mem s) (addr - off_data)"
  proof -
    from a have "?chunk - shmbuf_segment_vaddr_head cfg
                 < shmbuf_segment_size cfg * shmbuf_num_logical_segment cfg"
      by (auto simp: shmbuf_segment_vaddr_tail_def)
    then have sid: "?sid < shmbuf_num_logical_segment cfg"
      using a by (simp add: less_mult_imp_div_less mult.commute)
    have f: "shmBufferFreeChunk cfg (s\<lparr>lock := True\<rparr>) ?sid ?chunk
               = Some (Inl AssertFailure, s\<lparr>lock := True\<rparr>)"
      using a by (intro bad) simp
    show ?thesis using a sid f by (simp add: shmbufFree_def Let_def)
  qed
  show ?thesis using bad [of s chunk segment_id] good facade by blast
qed

theorem free_asserts_both_guards_witness:
  "assert_checking cfg_assert
   \<and> \<not> SHMBUF_CHUNK_CHECK_MAGIC (mem guard_damaged) 0x7f0000000000
   \<and> shmBufferFreeChunk cfg_assert guard_damaged 0 0x7f0000000000
       = Some (Inl AssertFailure, guard_damaged)
   \<and> shmbufFree cfg_assert os_ok guard_damaged (0x7f0000000000 + 40)
       = Some (Some AssertFailure, guard_damaged\<lparr>lock := True\<rparr>)"
proof -
  have a: "assert_checking cfg_assert" by (simp add: cfg_assert_def)
  have c: "\<not> SHMBUF_CHUNK_CHECK_MAGIC (mem guard_damaged) 0x7f0000000000"
    by (simp add: SHMBUF_CHUNK_CHECK_MAGIC_def guard_damaged_header SHMBUF_CHUNK_MAGIC_CODE_def)
  from free_asserts_both_guards [OF a, of guard_damaged "0x7f0000000000" 0 True guard_damaged
         "0x7f0000000000 + 40" os_ok] c
  show ?thesis
    by (simp add: a off_data_def guard_damaged_fields cfg_assert_def cfg0_fields
          shmbuf_segment_vaddr_tail_def)
qed


text \<open>
  C5 as stated fails in a build without assertion checking, where \<^verbatim>\<open>Assert\<close> expands
  to nothing: the chunk with the damaged trailing guard is freed like any other, pushed
  on its free list, and its segment is dropped.
\<close>

theorem free_accepts_damaged_guard_counterexample:
  "\<not> assert_checking cfg0
   \<and> \<not> SHMBUF_CHUNK_CHECK_MAGIC (mem guard_damaged) 0x7f0000000000
   \<and> map_option (\<lambda>(r, s). (r, free_chunks (segments s ! 0) ! 18, free_segment_list s))
        (shmbufFree cfg0 os_ok guard_damaged (0x7f0000000000 + 40))
       = Some (None, [0x7f0000000000], [0, 1, 2, 3, 4, 5, 6, 7, 8, 9])"
proof -
  have m: "free_merge cfg0 0 ((replicate 26 [])[18 := []]) (mem guard_damaged) 0x7f0000000000
             = Some (Inr 0x7f0000000000, (replicate 26 [])[18 := []], mem guard_damaged)"
    by (subst free_merge.simps)
       (simp add: guard_damaged_header SHMBUF_CHUNKSZ_MAX_BIT_def shmBufferSegmentMmapPtr_def cfg0_fields)
  have f: "shmBufferFreeChunk cfg0 (guard_damaged\<lparr>lock := True\<rparr>) 0 0x7f0000000000
             = Some (Inr True,
                 set_seg (guard_damaged\<lparr>lock := True,
                            mem := chain_link (mem guard_damaged) 0x7f0000000000
                                     (free_chunks_addr cfg0 0 18)\<rparr>) 0
                   \<lparr>revision = 1, num_actives = 0,
                    free_chunks = (replicate 26 [])[18 := [0x7f0000000000]]\<rparr>)"
    by (simp add: shmBufferFreeChunk_def guard_damaged_fields m free_push_def guard_damaged_header
          SHMBUF_CHUNKSZ_MAX_BIT_def SHMBUF_CHUNKSZ_MIN_BIT_def Let_def dlist_push_head_def cfg0_fields)
  show ?thesis
    by (simp add: shmbufFree_def Let_def off_data_def guard_damaged_fields guard_damaged_nonempty f
          shmBufferDropSegment_def set_seg_def set_lmap_def SHMBUF_SEGMENT_FILENAME_def
          SHMBUF_CHUNK_CHECK_MAGIC_def guard_damaged_header SHMBUF_CHUNK_MAGIC_CODE_def
          shmbuf_segment_vaddr_tail_def cfg0_fields os_ok_def)
qed




section \<open>The chunks of a segment\<close>

text \<open>
  The chunks of a segment are what the walk of \<^verbatim>\<open>__pgstrom_shmbuf_segment_info\<close> visits
  (lines 793-818): from the base, each header gives the span to the next one; a class out
  of range, a wrong leading guard or a span past the end means the segment is corrupted
  (\<open>None\<close>).
\<close>

lemma segment_walk_measure: "0 < p \<Longrightarrow> c + p \<le> t \<Longrightarrow> t - (c + p) < t - (c::nat)"
  by arith

function segment_walk :: "memory \<Rightarrow> nat \<Rightarrow> nat \<Rightarrow> nat list option" where
  "segment_walk m cur tl_ptr =
     (if cur < tl_ptr
      then if chunk_mclass m cur < SHMBUF_CHUNKSZ_MIN_BIT \<or>
              chunk_mclass m cur > SHMBUF_CHUNKSZ_MAX_BIT \<or>
              SHMBUF_CHUNK_MAGIC_HEAD m cur \<noteq> SHMBUF_CHUNK_MAGIC_CODE \<or>
              cur + 2 ^ chunk_mclass m cur > tl_ptr
           then None
           else map_option ((#) cur) (segment_walk m (cur + 2 ^ chunk_mclass m cur) tl_ptr)
      else Some [])"
  by pat_completeness auto
termination
proof (relation "measure (\<lambda>(m, cur, tl_ptr). tl_ptr - cur)", goal_cases)
  case 1
  show ?case by simp
next
  case (2 m cur tl_ptr)
  then show ?case by (auto simp: not_less intro!: segment_walk_measure)
qed

declare segment_walk.simps [simp del]

definition chunk_spans :: "memory \<Rightarrow> nat list \<Rightarrow> nat" where
  "chunk_spans m cs = sum_list (map (\<lambda>chunk. 2 ^ chunk_mclass m chunk) cs)"

definition segment_span_sum :: "config \<Rightarrow> memory \<Rightarrow> nat \<Rightarrow> nat option" where
  "segment_span_sum cfg m segment_id =
     map_option (chunk_spans m)
       (segment_walk m (shmBufferSegmentMmapPtr cfg segment_id)
          (shmBufferSegmentMmapPtr cfg segment_id + shmbuf_segment_size cfg))"


section \<open>The span sum after a request that wraps\<close>

text \<open>
  A request of \<open>2 ^ 64 - 16\<close> bytes: the padded size wraps to 28, the class is 7, and the
  trailing guard, at \<^verbatim>\<open>data + required\<close>, lands 16 bytes before \<^verbatim>\<open>data\<close>, on the
  \<^verbatim>\<open>mclass\<close> field of the chunk's own header.
\<close>

lemma alloc_class_guard_on_class: "alloc_class 0xFFFFFFFFFFFFFFF0 = 5"
  by (simp add: alloc_class_def get_next_log2_def off_data_def bit_length.simps)

lemma span_before:
  "segment_span_sum cfg0 (mem one_active) 0 = Some 33554432"
  by (simp add: segment_span_sum_def one_active_def after_startup_mem shmBufferSegmentMmapPtr_def
        cfg0_fields segment_walk.simps chunk_init_free_def chain_link_def chunk_mclass_def
        SHMBUF_CHUNK_MAGIC_HEAD_def off_mclass_def off_magic_head_def off_prev_def off_next_def
        off_data_def load_store_simps SHMBUF_CHUNK_MAGIC_CODE_def SHMBUF_CHUNKSZ_MIN_BIT_def
        SHMBUF_CHUNKSZ_MAX_BIT_def chunk_spans_def)




lemma tail_guard_on_class:
  "chunk_mclass
     (store32
        (store64 (store64 (memset M 0x7f0000000000 0 16) (0x7f0000000000 + off_required)
                    (unat (0xFFFFFFFFFFFFFFF0 :: 64 word)))
           (0x7f0000000000 + off_seg) sg)
        (magic_tail_addr 0x7f0000000000
           (chunk_required
              (store64 (store64 (memset M 0x7f0000000000 0 16) (0x7f0000000000 + off_required)
                          (unat (0xFFFFFFFFFFFFFFF0 :: 64 word)))
                 (0x7f0000000000 + off_seg) sg)
              0x7f0000000000))
        SHMBUF_CHUNK_MAGIC_CODE)
     0x7f0000000000 = SHMBUF_CHUNK_MAGIC_CODE"
proof -
  let ?m3 = "store64 (store64 (memset M 0x7f0000000000 0 16) (0x7f0000000000 + off_required)
                        (unat (0xFFFFFFFFFFFFFFF0 :: 64 word)))
               (0x7f0000000000 + off_seg) sg"
  have r: "chunk_required ?m3 0x7f0000000000 = 18446744073709551600"
    by (simp add: chunk_required_def off_required_def off_seg_def load_store_simps)
  have t: "magic_tail_addr 0x7f0000000000 18446744073709551600 = 0x7f0000000000 + off_mclass"
    by (simp add: magic_tail_addr_def off_data_def off_mclass_def)
  show ?thesis
    unfolding r t chunk_mclass_def by (simp add: load32_store32_same SHMBUF_CHUNK_MAGIC_CODE_def)
qed

lemma guard_on_class_in_segment:
  "in_segment cfg0 0 (magic_tail_addr 0x7f0000000000 18446744073709551600) 4"
  by (simp add: in_segment_cfg0 magic_tail_addr_def off_data_def)

lemma guard_on_class_alloc:
  "fst (shmbufAlloc cfg0 os_ok one_active 0xFFFFFFFFFFFFFFF0) = Inr (Some (0x7f0000000000 + 40)) \<and>
   chunk_mclass (mem (snd (shmbufAlloc cfg0 os_ok one_active 0xFFFFFFFFFFFFFFF0))) 0x7f0000000000
     = SHMBUF_CHUNK_MAGIC_CODE"
proof -
  let ?fl = "(replicate 26 [])[18 := [0x7f0000000000]]"
  let ?s = "one_active\<lparr>lock := True\<rparr>"
  let ?n = "0xFFFFFFFFFFFFFFF0 :: 64 word"
  obtain r fl M where sp: "shmBufferSplitChunk cfg0 0 ?fl (mem after_startup) 8 = (r, fl, M)"
    by (cases "shmBufferSplitChunk cfg0 0 ?fl (mem after_startup) 8") auto
  with split_after_startup [of "mem after_startup"]
  have sp': "shmBufferSplitChunk cfg0 0 ?fl (mem after_startup) 8 = (Inr True, split_lists, M)"
    by simp
  let ?m3 = "store64 (store64 (memset M 0x7f0000000000 0 16) (0x7f0000000000 + off_required)
                        (unat ?n))
               (0x7f0000000000 + off_seg) (segment_addr cfg0 0)"
  obtain q S1 where a: "shmBufferAllocChunkFromSegment cfg0 ?s 0 ?n = (q, S1)"
    by (cases "shmBufferAllocChunkFromSegment cfg0 ?s 0 ?n")
  have "fst (shmBufferAllocChunkFromSegment cfg0 ?s 0 ?n) = Inr (Some 0x7f0000000000)"
    using sp'
    by (simp add: shmBufferAllocChunkFromSegment_def one_active_def after_startup_fields
          after_startup_free_chunks SHMBUF_CHUNKSZ_MAX_BIT_def SHMBUF_CHUNKSZ_MIN_BIT_def Let_def
          alloc_take_def split_lists_def cfg0_fields alloc_class_guard_on_class
          alloc_take_tail_addr_nat guard_on_class_in_segment)
  with a have q: "q = Inr (Some 0x7f0000000000)" by simp
  have "mem (snd (shmBufferAllocChunkFromSegment cfg0 ?s 0 ?n))
          = store32 ?m3 (magic_tail_addr 0x7f0000000000 (chunk_required ?m3 0x7f0000000000))
              SHMBUF_CHUNK_MAGIC_CODE"
    using sp'
    by (simp add: shmBufferAllocChunkFromSegment_def one_active_def after_startup_fields
          after_startup_free_chunks SHMBUF_CHUNKSZ_MAX_BIT_def SHMBUF_CHUNKSZ_MIN_BIT_def Let_def
          alloc_take_def split_lists_def cfg0_fields alloc_class_guard_on_class set_seg_def
          alloc_take_tail_addr_nat guard_on_class_in_segment)
  with a have c: "chunk_mclass (mem S1) 0x7f0000000000 = SHMBUF_CHUNK_MAGIC_CODE"
    by (simp only: snd_conv tail_guard_on_class)
  have "shmBufferAllocChunk cfg0 os_ok ?s ?n = (Inr (Some 0x7f0000000000), S1)"
    using a q by (simp add: shmBufferAllocChunk_def one_active_def)
  then have "shmbufAlloc cfg0 os_ok one_active ?n
               = (Inr (Some (0x7f0000000000 + 40)), S1\<lparr>lock := False\<rparr>)"
    by (simp add: shmbufAlloc_def one_active_def after_startup_fields off_data_def)
  then show ?thesis using c by simp
qed


text \<open>
  C6. The claim says that after any allocation the spans of the chunks of a segment add
  up to the segment size. Before the request above they do (one free chunk of 32 MB);
  after it the first header has the guard word as its class, the walk over the segment
  reports corruption, and no sum of spans is left.
\<close>

theorem span_sum_lost_after_wrapped_alloc:
  "segment_span_sum cfg0 (mem one_active) 0 = Some 33554432
   \<and> fst (shmbufAlloc cfg0 os_ok one_active 0xFFFFFFFFFFFFFFF0) = Inr (Some (0x7f0000000000 + 40))
   \<and> chunk_mclass (mem (snd (shmbufAlloc cfg0 os_ok one_active 0xFFFFFFFFFFFFFFF0)))
        0x7f0000000000 = SHMBUF_CHUNK_MAGIC_CODE
   \<and> segment_span_sum cfg0 (mem (snd (shmbufAlloc cfg0 os_ok one_active 0xFFFFFFFFFFFFFFF0))) 0
       = None"
proof -
  let ?m = "mem (snd (shmbufAlloc cfg0 os_ok one_active 0xFFFFFFFFFFFFFFF0))"
  note g = guard_on_class_alloc
  have c: "chunk_mclass ?m 0x7f0000000000 = SHMBUF_CHUNK_MAGIC_CODE"
    using g by (rule conjunct2)
  have big: "\<not> SHMBUF_CHUNK_MAGIC_CODE \<le> SHMBUF_CHUNKSZ_MAX_BIT"
    by (simp add: SHMBUF_CHUNK_MAGIC_CODE_def SHMBUF_CHUNKSZ_MAX_BIT_def)
  have w: "segment_walk ?m 0x7f0000000000 (0x7f0000000000 + 33554432) = None"
    by (subst segment_walk.simps) (simp only: c big not_le [symmetric] simp_thms if_True if_False, simp)
  have "segment_span_sum cfg0 ?m 0 = None"
    unfolding segment_span_sum_def shmBufferSegmentMmapPtr_def cfg0_fields
    by (simp only: mult_zero_left add_0_right w option.map)
  with g span_before show ?thesis by (intro conjI) (simp_all only: conjunct1 conjunct2)
qed


section \<open>Alignment of free chunks\<close>











definition split_guard :: "config \<Rightarrow> nat \<Rightarrow> bool" where
  "split_guard cfg k =
     (\<not> (assert_checking cfg \<and> \<not> (k > SHMBUF_CHUNKSZ_MIN_BIT \<and> k \<le> SHMBUF_CHUNKSZ_MAX_BIT)) \<and>
      SHMBUF_CHUNKSZ_MIN_BIT \<le> k \<and> k \<le> SHMBUF_CHUNKSZ_MAX_BIT)"


lemma split_nonempty:
  "split_guard cfg k \<Longrightarrow> fl ! (k - SHMBUF_CHUNKSZ_MIN_BIT) \<noteq> [] \<Longrightarrow>
     shmBufferSplitChunk cfg sid fl m k = split_halves cfg sid fl m k"
  by (subst shmBufferSplitChunk.simps) (auto simp: split_guard_def)


lemma split_rec:
  "split_guard cfg k \<Longrightarrow> fl ! (k - SHMBUF_CHUNKSZ_MIN_BIT) = [] \<Longrightarrow>
   \<not> k \<ge> SHMBUF_CHUNKSZ_MAX_BIT \<Longrightarrow>
   shmBufferSplitChunk cfg sid fl m k =
     (case shmBufferSplitChunk cfg sid fl m (k + 1) of
        (Inl e, fl1, m1) \<Rightarrow> (Inl e, fl1, m1)
      | (Inr False, fl1, m1) \<Rightarrow> (Inr False, fl1, m1)
      | (Inr True, fl1, m1) \<Rightarrow> split_halves cfg sid fl1 m1 k)"
  by (subst shmBufferSplitChunk.simps) (auto simp: split_guard_def)






lemma bit_length_bound: "n < 2 ^ bit_length n"
proof (induction n rule: bit_length.induct)
  case (1 n)
  show ?case
  proof (cases "n = 0")
    case True
    then show ?thesis by (simp add: bit_length.simps)
  next
    case False
    then have "n div 2 < 2 ^ bit_length (n div 2)" using 1 by simp
    then have "n < 2 * 2 ^ bit_length (n div 2)" by linarith
    then show ?thesis using False by (subst bit_length.simps) simp
  qed
qed

lemma get_next_log2_bound: "sz \<le> 2 ^ get_next_log2 sz"
proof (cases "sz = 0 \<or> sz = 1")
  case True
  then show ?thesis by (auto simp: get_next_log2_def)
next
  case False
  then have "sz - 1 < 2 ^ bit_length (sz - 1)" by (simp add: bit_length_bound)
  then show ?thesis using False by (simp add: get_next_log2_def)
qed

definition request_class :: "64 word \<Rightarrow> nat" where
  "request_class required = max SHMBUF_CHUNKSZ_MIN_BIT (alloc_class required)"

lemma request_class_holds:
  assumes "unat required + 44 < 2 ^ 64"
  shows "off_data + unat required + 4 \<le> 2 ^ request_class required"
proof -
  have "unat (word_of_nat off_data + required + 4) = off_data + unat required + 4"
    using assms by (simp add: off_data_def unat_word_ariths unat_of_nat)
  then have "off_data + unat required + 4 \<le> 2 ^ alloc_class required"
    using get_next_log2_bound [of "off_data + unat required + 4"] by (simp add: alloc_class_def)
  also have "\<dots> \<le> 2 ^ request_class required"
    by (simp add: request_class_def)
  finally show ?thesis .
qed



lemma alloc_from_segment_unfold:
  "sid < length (segments s) \<Longrightarrow> \<not> alloc_class required > SHMBUF_CHUNKSZ_MAX_BIT \<Longrightarrow>
     shmBufferAllocChunkFromSegment cfg s sid required =
       (if free_chunks (segments s ! sid) ! (request_class required - SHMBUF_CHUNKSZ_MIN_BIT) = []
        then (case shmBufferSplitChunk cfg sid (free_chunks (segments s ! sid)) (mem s)
                     (request_class required + 1) of
                (Inl e, fl1, m1) \<Rightarrow>
                  (Inl e, set_seg (s\<lparr>mem := m1\<rparr>) sid ((segments s ! sid)\<lparr>free_chunks := fl1\<rparr>))
              | (Inr False, fl1, m1) \<Rightarrow>
                  (Inr None, set_seg (s\<lparr>mem := m1\<rparr>) sid ((segments s ! sid)\<lparr>free_chunks := fl1\<rparr>))
              | (Inr True, fl1, m1) \<Rightarrow>
                  alloc_take cfg s sid required (request_class required) fl1 m1)
        else alloc_take cfg s sid required (request_class required)
               (free_chunks (segments s ! sid)) (mem s))"
proof -
  assume a: "sid < length (segments s)" "\<not> alloc_class required > SHMBUF_CHUNKSZ_MAX_BIT"
  have kk: "(if alloc_class required < SHMBUF_CHUNKSZ_MIN_BIT then SHMBUF_CHUNKSZ_MIN_BIT
             else alloc_class required) = request_class required"
    by (simp add: request_class_def max_def)
  show ?thesis using a by (simp add: shmBufferAllocChunkFromSegment_def Let_def kk)
qed







lemma request_class_small: "request_class 50 = 7"
  by (simp add: request_class_def alloc_class_small SHMBUF_CHUNKSZ_MIN_BIT_def)









section \<open>Allocation followed by free on a new segment\<close>

text \<open>
  The header of a chunk that is on a free list: its class, the leading guard, and list
  pointers that are not NULL. \<^verbatim>\<open>shmBufferFreeChunk\<close> reads exactly these three of a
  buddy before it merges.
\<close>

definition free_header :: "memory \<Rightarrow> nat \<Rightarrow> nat \<Rightarrow> bool" where
  "free_header m chunk mclass =
     (chunk_mclass m chunk = mclass \<and>
      SHMBUF_CHUNK_MAGIC_HEAD m chunk = SHMBUF_CHUNK_MAGIC_CODE \<and>
      chain_is_linked m chunk)"

lemma header_fields_cong:
  assumes "\<And>a. x \<le> a \<Longrightarrow> a < x + off_data \<Longrightarrow> m' a = m a"
  shows "chunk_mclass m' x = chunk_mclass m x"
    and "SHMBUF_CHUNK_MAGIC_HEAD m' x = SHMBUF_CHUNK_MAGIC_HEAD m x"
    and "chain_is_linked m' x = chain_is_linked m x"
proof -
  have l: "load_le m' (x + d) n = load_le m (x + d) n" if "d + n \<le> off_data" for d n
    by (rule load_le_eqI) (use that assms in auto)
  show "chunk_mclass m' x = chunk_mclass m x"
    unfolding chunk_mclass_def load32_def by (rule l) (simp add: off_mclass_def off_data_def)
  show "SHMBUF_CHUNK_MAGIC_HEAD m' x = SHMBUF_CHUNK_MAGIC_HEAD m x"
    unfolding SHMBUF_CHUNK_MAGIC_HEAD_def load32_def
    by (rule l) (simp add: off_magic_head_def off_data_def)
  have "load64 m' (x + off_prev) = load64 m (x + off_prev)"
    unfolding load64_def by (rule l) (simp add: off_prev_def off_data_def)
  moreover have "load64 m' (x + off_next) = load64 m (x + off_next)"
    unfolding load64_def by (rule l) (simp add: off_next_def off_data_def)
  ultimately show "chain_is_linked m' x = chain_is_linked m x"
    by (simp add: chain_is_linked_def)
qed

lemma free_header_cong:
  "(\<And>a. x \<le> a \<Longrightarrow> a < x + off_data \<Longrightarrow> m' a = m a) \<Longrightarrow>
     free_header m' x k = free_header m x k"
  unfolding free_header_def by (simp add: header_fields_cong [of x m' m])

text \<open>What the writes of a header leave alone.\<close>

lemma store32_outside: "a < b \<or> b + 4 \<le> a \<Longrightarrow> store32 m b v a = m a"
  unfolding store32_def by (rule store_le_outside) auto

lemma store64_outside: "a < b \<or> b + 8 \<le> a \<Longrightarrow> store64 m b v a = m a"
  unfolding store64_def by (rule store_le_outside) auto

lemma memset_outside: "a < b \<or> b + n \<le> a \<Longrightarrow> memset m b c n a = m a"
  by (auto simp: memset_def)

lemma chunk_init_free_outside:
  "a < c \<or> c + off_data \<le> a \<Longrightarrow> chunk_init_free m c k h a = m a"
  by (auto simp: chunk_init_free_def chain_link_def off_data_def off_prev_def off_next_def
        off_mclass_def off_magic_head_def store32_outside store64_outside memset_outside)

lemma chunk_init_free_header:
  assumes "k < 2 ^ 32" and "0 < h" and "h < 2 ^ 64"
  shows "free_header (chunk_init_free m c k h) c k"
  using assms
  by (simp add: free_header_def chunk_init_free_def chain_link_def chunk_mclass_def
        SHMBUF_CHUNK_MAGIC_HEAD_def chain_is_linked_def off_data_def off_prev_def off_next_def
        off_mclass_def off_magic_head_def load_store_simps SHMBUF_CHUNK_MAGIC_CODE_def)


text \<open>
  The 26 free lists of a segment written as a function of the list index, so that a
  pop, a push and a delete are updates of that function.
\<close>

definition lists_of :: "(nat \<Rightarrow> nat list) \<Rightarrow> nat list list" where
  "lists_of f = map f [0..<num_classes]"

lemma length_lists_of: "length (lists_of f) = num_classes"
  by (simp add: lists_of_def)

lemma nth_lists_of: "i < num_classes \<Longrightarrow> lists_of f ! i = f i"
  by (simp add: lists_of_def)

lemma lists_of_eqI: "(\<And>i. i < num_classes \<Longrightarrow> f i = g i) \<Longrightarrow> lists_of f = lists_of g"
  by (simp add: lists_of_def)

lemma lists_of_update: "(lists_of f)[i := v] = lists_of (f(i := v))"
  by (rule nth_equalityI) (auto simp: length_lists_of nth_lists_of nth_list_update)

lemma push_tail_lists_of:
  "i < num_classes \<Longrightarrow> dlist_push_tail (lists_of f) i x = lists_of (f(i := f i @ [x]))"
  by (simp add: dlist_push_tail_def lists_of_update nth_lists_of)

lemma push_head_lists_of:
  "i < num_classes \<Longrightarrow> dlist_push_head (lists_of f) i x = lists_of (f(i := x # f i))"
  by (simp add: dlist_push_head_def lists_of_update nth_lists_of)

lemma delete_lists_of: "dlist_delete (lists_of f) x = lists_of (\<lambda>i. remove1 x (f i))"
  by (simp add: dlist_delete_def lists_of_def)

lemma replicate_lists_of: "replicate num_classes [] = lists_of (\<lambda>_. [])"
  by (simp add: lists_of_def map_replicate_const)

text \<open>
  When the one chunk of class \<open>L\<close> at \<open>base\<close> has been split down to class \<open>j\<close>, every
  class \<open>i\<close> from \<open>j\<close> up to \<open>L - 1\<close> has one free chunk, the upper half left by the
  split of class \<open>i + 1\<close>, at \<open>base + 2 ^ i\<close>. \<open>ladder\<close> has the chunk at \<open>base\<close> in
  front of the list of class \<open>k\<close> as well: the lists right after the splits, before the
  chunk is taken. \<open>ladder base L L\<close> is the new segment.
\<close>

definition rung :: "nat \<Rightarrow> nat \<Rightarrow> nat \<Rightarrow> nat \<Rightarrow> nat list" where
  "rung base L j i =
     (if j \<le> i + SHMBUF_CHUNKSZ_MIN_BIT \<and> i + SHMBUF_CHUNKSZ_MIN_BIT < L
      then [base + 2 ^ (i + SHMBUF_CHUNKSZ_MIN_BIT)] else [])"

definition ladder :: "nat \<Rightarrow> nat \<Rightarrow> nat \<Rightarrow> nat list list" where
  "ladder base L k =
     lists_of ((rung base L k)
       (k - SHMBUF_CHUNKSZ_MIN_BIT := base # rung base L k (k - SHMBUF_CHUNKSZ_MIN_BIT)))"

definition rung_headers :: "memory \<Rightarrow> nat \<Rightarrow> nat \<Rightarrow> nat \<Rightarrow> bool" where
  "rung_headers m base L j = (\<forall>i. j \<le> i \<and> i < L \<longrightarrow> free_header m (base + 2 ^ i) i)"

lemma ladder_fresh:
  "SHMBUF_CHUNKSZ_MIN_BIT \<le> L \<Longrightarrow>
   ladder base L L = (replicate num_classes [])[L - SHMBUF_CHUNKSZ_MIN_BIT := [base]]"
  unfolding ladder_def replicate_lists_of lists_of_update
  by (rule lists_of_eqI) (simp add: rung_def)

lemma pow_ge_off_data: "6 \<le> k \<Longrightarrow> off_data \<le> 2 ^ k"
proof -
  assume "6 \<le> k"
  then have "(2::nat) ^ 6 \<le> 2 ^ k" by (intro power_increasing) simp_all
  then show ?thesis by (simp add: off_data_def)
qed

text \<open>One split, and the chain of splits from the top class down to \<open>k - 1\<close>.\<close>

lemma split_halves_ladder:
  assumes k: "SHMBUF_CHUNKSZ_MIN_BIT < k" "k \<le> L" "L \<le> SHMBUF_CHUNKSZ_MAX_BIT"
    and h: "free_header m base k" "rung_headers m base L k"
    and a: "segment_addr cfg sid + 440 \<le> 2 ^ 64"
  shows "\<exists>m'. split_halves cfg sid (ladder base L k) m k = (Inr True, ladder base L (k - 1), m') \<and>
           free_header m' base (k - 1) \<and> rung_headers m' base L (k - 1)"
proof -
  define i where "i = k - SHMBUF_CHUNKSZ_MIN_BIT"
  define hd_addr where "hd_addr = free_chunks_addr cfg sid (i - 1)"
  define m1 where "m1 = chunk_init_free m base (k - 1) hd_addr"
  define m2 where "m2 = chunk_init_free m1 (base + 2 ^ (k - 1)) (k - 1) hd_addr"
  have i: "i < num_classes" "0 < i" "i - 1 < num_classes"
    using k by (auto simp: i_def num_classes_def SHMBUF_CHUNKSZ_MIN_BIT_def SHMBUF_CHUNKSZ_MAX_BIT_def)
  have k7: "7 < k" "k \<le> 32" using k by (auto simp: SHMBUF_CHUNKSZ_MIN_BIT_def SHMBUF_CHUNKSZ_MAX_BIT_def)
  have ha: "0 < hd_addr" "hd_addr < 2 ^ 64"
    using a i by (auto simp: hd_addr_def free_chunks_addr_def num_classes_def
        SHMBUF_CHUNKSZ_MIN_BIT_def SHMBUF_CHUNKSZ_MAX_BIT_def)
  have kb: "k - 1 < 2 ^ 32"
  proof -
    have "k - 1 < 32" using k7 by simp
    also have "\<dots> < (2::nat) ^ 32" by simp
    finally show ?thesis .
  qed
  have od: "off_data \<le> 2 ^ (k - 1)" using k7 by (intro pow_ge_off_data) simp
  have pp: "(2::nat) ^ k = 2 ^ (k - 1) + 2 ^ (k - 1)"
    using k7 by (cases k) simp_all
  have nth: "ladder base L k ! i = base # rung base L k i"
    using i by (simp add: ladder_def nth_lists_of i_def)
  have pop: "(ladder base L k)[i := rung base L k i] = lists_of (rung base L k)"
    by (simp add: ladder_def lists_of_update i_def)
  have e: "rung base L k (i - 1) = []" using i k
    by (auto simp: rung_def i_def)
  have fl: "dlist_push_tail (dlist_push_tail (lists_of (rung base L k)) (i - 1) base) (i - 1)
              (base + 2 ^ (k - 1)) = ladder base L (k - 1)"
  proof -
    have i1: "k - 1 - SHMBUF_CHUNKSZ_MIN_BIT = i - 1" by (simp add: i_def)
    have r: "rung base L (k - 1) (i - 1) = [base + 2 ^ (k - 1)]"
      using i k by (auto simp: rung_def i_def)
    have "lists_of ((rung base L k)(i - 1 := [base, base + 2 ^ (k - 1)])) =
          lists_of ((rung base L (k - 1))(i - 1 := base # rung base L (k - 1) (i - 1)))"
    proof (rule lists_of_eqI)
      fix j assume "j < num_classes"
      show "((rung base L k)(i - 1 := [base, base + 2 ^ (k - 1)])) j =
            ((rung base L (k - 1))(i - 1 := base # rung base L (k - 1) (i - 1))) j"
        using i k by (auto simp: r rung_def i_def)
    qed
    moreover have "dlist_push_tail (dlist_push_tail (lists_of (rung base L k)) (i - 1) base) (i - 1)
              (base + 2 ^ (k - 1)) = lists_of ((rung base L k)(i - 1 := [base, base + 2 ^ (k - 1)]))"
      using i(3) e by (simp add: push_tail_lists_of)
    moreover have "ladder base L (k - 1) =
          lists_of ((rung base L (k - 1))(i - 1 := base # rung base L (k - 1) (i - 1)))"
      unfolding ladder_def i1 ..
    ultimately show ?thesis by simp
  qed
  have "split_halves cfg sid (ladder base L k) m k =
          (Inr True,
           dlist_push_tail (dlist_push_tail (lists_of (rung base L k)) (i - 1) base) (i - 1)
              (base + 2 ^ (k - 1)), m2)"
    unfolding split_halves_def Let_def i_def [symmetric] nth m2_def m1_def hd_addr_def
    using h(1) i(2) by (simp add: pop free_header_def)
  then have eq: "split_halves cfg sid (ladder base L k) m k = (Inr True, ladder base L (k - 1), m2)"
    unfolding fl .
  have h1: "free_header m1 base (k - 1)"
    unfolding m1_def using kb ha by (rule chunk_init_free_header)
  have f2: "free_header m2 (base + 2 ^ (k - 1)) (k - 1)"
    unfolding m2_def using kb ha by (rule chunk_init_free_header)
  have f1: "free_header m2 base (k - 1)"
  proof -
    have "free_header m2 base (k - 1) = free_header m1 base (k - 1)"
      by (rule free_header_cong) (use od in \<open>simp add: m2_def chunk_init_free_outside\<close>)
    then show ?thesis using h1 by simp
  qed
  have rh: "rung_headers m2 base L (k - 1)"
    unfolding rung_headers_def
  proof (intro allI impI)
    fix j assume j: "k - 1 \<le> j \<and> j < L"
    show "free_header m2 (base + 2 ^ j) j"
    proof (cases "j = k - 1")
      case True
      then show ?thesis using f2 by simp
    next
      case False
      then have kj: "k \<le> j" using j by arith
      then have p: "(2::nat) ^ k \<le> 2 ^ j" by (intro power_increasing) simp_all
      have "free_header m2 (base + 2 ^ j) j = free_header m (base + 2 ^ j) j"
        by (rule free_header_cong)
           (use od p pp in \<open>simp add: m2_def m1_def chunk_init_free_outside\<close>)
      then show ?thesis using h(2) kj j by (simp add: rung_headers_def)
    qed
  qed
  show ?thesis using eq f1 rh by blast
qed


lemma bit_length_le: "n < 2 ^ L \<Longrightarrow> bit_length n \<le> L"
proof (induction n arbitrary: L rule: bit_length.induct)
  case (1 n)
  show ?case
  proof (cases "n = 0")
    case True
    then show ?thesis by (simp add: bit_length.simps)
  next
    case False
    then obtain L' where L: "L = Suc L'" using 1(2) by (cases L) auto
    have "n div 2 < 2 ^ L'" using 1(2) unfolding L by simp
    then have "bit_length (n div 2) \<le> L'" using 1(1) False by simp
    then show ?thesis using False unfolding L by (subst bit_length.simps) simp
  qed
qed

lemma get_next_log2_le: "sz \<le> 2 ^ L \<Longrightarrow> get_next_log2 sz \<le> L"
  by (auto simp: get_next_log2_def intro!: bit_length_le)

lemma request_class_le:
  assumes "unat required + 44 \<le> 2 ^ L" and "SHMBUF_CHUNKSZ_MIN_BIT \<le> L"
    and "L \<le> SHMBUF_CHUNKSZ_MAX_BIT"
  shows "request_class required \<le> L"
proof -
  have "(2::nat) ^ L \<le> 2 ^ 32"
    using assms(3) by (intro power_increasing) (simp_all add: SHMBUF_CHUNKSZ_MAX_BIT_def)
  then have "unat required + 44 < 2 ^ 64" using assms(1) by simp
  then have "unat (word_of_nat off_data + required + 4) = off_data + unat required + 4"
    by (simp add: off_data_def unat_word_ariths unat_of_nat)
  then have "alloc_class required \<le> L"
    using assms(1) by (simp add: alloc_class_def off_data_def get_next_log2_le)
  then show ?thesis using assms(2) by (simp add: request_class_def)
qed

lemma split_ladder:
  assumes L: "L \<le> SHMBUF_CHUNKSZ_MAX_BIT"
    and a: "segment_addr cfg sid + 440 \<le> 2 ^ 64"
    and h: "free_header m base L"
  shows "SHMBUF_CHUNKSZ_MIN_BIT < k \<Longrightarrow> k \<le> L \<Longrightarrow>
         \<exists>m'. shmBufferSplitChunk cfg sid (ladder base L L) m k =
                 (Inr True, ladder base L (k - 1), m') \<and>
               free_header m' base (k - 1) \<and> rung_headers m' base L (k - 1)"
proof (induction "L - k" arbitrary: k)
  case 0
  then have k: "k = L" by simp
  have g: "split_guard cfg L" using 0 L by (simp add: split_guard_def k)
  have ne: "ladder base L L ! (L - SHMBUF_CHUNKSZ_MIN_BIT) \<noteq> []"
    using L by (simp add: ladder_def nth_lists_of num_classes_def)
  have "rung_headers m base L L" by (auto simp: rung_headers_def)
  then show ?case
    unfolding k split_nonempty [OF g ne]
    using split_halves_ladder [of L L m base cfg sid] 0 L h a by (simp add: k)
next
  case (Suc d)
  then have k: "SHMBUF_CHUNKSZ_MIN_BIT < k" "k < L" "d = L - (k + 1)" by simp_all
  have g: "split_guard cfg k" using k L by (simp add: split_guard_def)
  have e: "ladder base L L ! (k - SHMBUF_CHUNKSZ_MIN_BIT) = []"
    using k L by (simp add: ladder_def nth_lists_of num_classes_def rung_def)
  have nt: "\<not> k \<ge> SHMBUF_CHUNKSZ_MAX_BIT" using k L by simp
  obtain m1 where m1: "shmBufferSplitChunk cfg sid (ladder base L L) m (k + 1) =
                 (Inr True, ladder base L k, m1)"
      "free_header m1 base k" "rung_headers m1 base L k"
    using Suc(1) [of "k + 1"] k by auto
  show ?case
    unfolding split_rec [OF g e nt] m1(1)
    using split_halves_ladder [of k L m1 base cfg sid] k L m1(2,3) a by simp
qed

text \<open>
  The header of a chunk that \<^verbatim>\<open>__shmBufferAllocChunkFromSegment\<close> has handed out: class
  and leading guard as before, the list pointers zeroed, the request stored, and the
  trailing guard behind the payload and inside the chunk.
\<close>

definition active_chunk :: "memory \<Rightarrow> nat \<Rightarrow> nat \<Rightarrow> bool" where
  "active_chunk m chunk mclass =
     (chunk_mclass m chunk = mclass \<and>
      SHMBUF_CHUNK_MAGIC_HEAD m chunk = SHMBUF_CHUNK_MAGIC_CODE \<and>
      \<not> chain_is_linked m chunk \<and>
      off_data + chunk_required m chunk + 4 \<le> 2 ^ mclass \<and>
      load32 m (chunk + off_data + chunk_required m chunk) = SHMBUF_CHUNK_MAGIC_CODE)"

lemma active_chunk_cong:
  assumes "\<And>a. x \<le> a \<Longrightarrow> a < x + 2 ^ k \<Longrightarrow> m' a = m a" and "6 \<le> k"
  shows "active_chunk m' x k = active_chunk m x k"
proof -
  have od: "off_data \<le> 2 ^ k" using assms(2) by (rule pow_ge_off_data)
  have hd: "\<And>a. x \<le> a \<Longrightarrow> a < x + off_data \<Longrightarrow> m' a = m a"
    using assms(1) od by simp
  have r: "chunk_required m' x = chunk_required m x"
    unfolding chunk_required_def load64_def
    by (rule load_le_eqI) (use hd in \<open>simp add: off_required_def off_data_def\<close>)
  have t: "load32 m' (x + off_data + chunk_required m x) = load32 m (x + off_data + chunk_required m x)"
    if "off_data + chunk_required m x + 4 \<le> 2 ^ k"
    unfolding load32_def by (rule load_le_eqI) (use that assms(1) in simp)
  have c: "chunk_mclass m' x = chunk_mclass m x"
    "SHMBUF_CHUNK_MAGIC_HEAD m' x = SHMBUF_CHUNK_MAGIC_HEAD m x"
    "chain_is_linked m' x = chain_is_linked m x"
    by (rule header_fields_cong, simp add: hd)+
  show ?thesis
    unfolding active_chunk_def r c using t by auto
qed

lemma active_chunk_check:
  "active_chunk m c k \<Longrightarrow> c + 2 ^ k \<le> 2 ^ 64 \<Longrightarrow> SHMBUF_CHUNK_CHECK_MAGIC m c"
  by (simp add: active_chunk_def SHMBUF_CHUNK_CHECK_MAGIC_def SHMBUF_CHUNK_MAGIC_TAIL_def
        magic_tail_addr_def)


lemma alloc_take_head:
  assumes fl: "fl ! (k - SHMBUF_CHUNKSZ_MIN_BIT) = c # rest"
    and h: "chunk_mclass m c = k" "SHMBUF_CHUNK_MAGIC_HEAD m c = SHMBUF_CHUNK_MAGIC_CODE"
    and n: "off_data + unat n + 4 \<le> 2 ^ k"
    and c: "c + 2 ^ k \<le> 2 ^ 64"
    and sg: "shmBufferSegmentMmapPtr cfg sid \<le> c"
      "c + 2 ^ k \<le> shmBufferSegmentMmapPtr cfg sid + shmbuf_segment_size cfg"
  shows "\<exists>m'. alloc_take cfg s sid n k fl m =
           (Inr (Some c),
            set_seg (s\<lparr>mem := m'\<rparr>) sid
              ((segments s ! sid)\<lparr>free_chunks := fl[k - SHMBUF_CHUNKSZ_MIN_BIT := rest],
                 num_actives := num_actives (segments s ! sid) + 1\<rparr>)) \<and>
           active_chunk m' c k \<and> (\<forall>a. a < c \<or> c + 2 ^ k \<le> a \<longrightarrow> m' a = m a)"
proof -
  define m1 where "m1 = memset m c 0 16"
  define m2 where "m2 = store64 m1 (c + off_required) (unat n)"
  define m3 where "m3 = store64 m2 (c + off_seg) (segment_addr cfg sid)"
  define t where "t = c + off_data + unat n"
  define m4 where "m4 = store32 m3 t SHMBUF_CHUNK_MAGIC_CODE"
  have "unat n < 2 ^ LENGTH(64)" by (rule unsigned_less)
  then have un: "unat n mod 2 ^ 64 = unat n" by simp
  have r3: "chunk_required m3 c = unat n"
    using un by (simp add: chunk_required_def m3_def m2_def off_required_def off_seg_def
          load_store_simps)
  have t64: "t < 2 ^ 64" using n c by (simp add: t_def)
  have ta: "magic_tail_addr c (unat n) = t"
    using t64 by (simp add: magic_tail_addr_def t_def)
  have ins: "in_segment cfg sid t 4"
    using n sg by (simp add: in_segment_def t_def)
  have r4: "chunk_required m4 c = unat n"
    using r3 by (simp add: chunk_required_def m4_def t_def off_required_def off_data_def
          load_store_simps)
  have cl: "chunk_mclass m4 c = k"
    using h(1) by (simp add: chunk_mclass_def m4_def m3_def m2_def m1_def t_def off_required_def
          off_seg_def off_data_def off_mclass_def load_store_simps)
  have mh: "SHMBUF_CHUNK_MAGIC_HEAD m4 c = SHMBUF_CHUNK_MAGIC_CODE"
    using h(2) by (simp add: SHMBUF_CHUNK_MAGIC_HEAD_def m4_def m3_def m2_def m1_def t_def
          off_required_def off_seg_def off_data_def off_magic_head_def load_store_simps)
  have pv: "load64 m4 (c + off_prev) = 0"
    by (simp add: m4_def m3_def m2_def m1_def t_def off_required_def off_prev_def
          off_seg_def off_data_def load_store_simps)
  have tl: "load32 m4 t = SHMBUF_CHUNK_MAGIC_CODE"
    by (simp add: m4_def load_store_simps SHMBUF_CHUNK_MAGIC_CODE_def)
  have ac: "active_chunk m4 c k"
    using cl mh pv tl n by (simp add: active_chunk_def r4 chain_is_linked_def t_def)
  have fr: "m4 a = m a" if "a < c \<or> c + 2 ^ k \<le> a" for a
    using that n
    by (auto simp: m4_def m3_def m2_def m1_def t_def off_required_def off_seg_def off_data_def
          store32_outside store64_outside memset_outside)
  have "alloc_take cfg s sid n k fl m =
           (Inr (Some c),
            set_seg (s\<lparr>mem := m4\<rparr>) sid
              ((segments s ! sid)\<lparr>free_chunks := fl[k - SHMBUF_CHUNKSZ_MIN_BIT := rest],
                 num_actives := num_actives (segments s ! sid) + 1\<rparr>))"
    unfolding alloc_take_def Let_def fl
    using h ins
    by (simp add: m4_def m3_def m2_def m1_def r3 [unfolded m3_def m2_def m1_def] ta)
  then show ?thesis using ac fr by blast
qed


text \<open>
  The rounds of the merge loop: a merge with the buddy above, a merge with the buddy
  below, and the three ways the loop ends.
\<close>

lemma merge_mem_outside:
  "a < gone \<or> gone + off_data \<le> a \<Longrightarrow> a < kept + off_mclass \<or> kept + off_mclass + 4 \<le> a \<Longrightarrow>
     merge_mem m gone kept a = m a"
  by (simp add: merge_mem_def store32_outside memset_outside)

lemma merge_mem_class:
  assumes "chunk_mclass m kept = k" and "k + 1 < 2 ^ 32"
    and "kept + off_data \<le> gone \<or> gone + off_data \<le> kept"
  shows "chunk_mclass (merge_mem m gone kept) kept = k + 1"
proof -
  have "chunk_mclass (memset m gone 0 off_data) kept = k"
    using assms(1,3) by (auto simp: chunk_mclass_def off_mclass_def off_data_def load_store_simps)
  then show ?thesis
    using assms(2) by (simp add: merge_mem_def chunk_mclass_def load_store_simps)
qed

lemma merge_mem_magic:
  assumes "kept + off_data \<le> gone \<or> gone + off_data \<le> kept"
  shows "SHMBUF_CHUNK_MAGIC_HEAD (merge_mem m gone kept) kept = SHMBUF_CHUNK_MAGIC_HEAD m kept"
  using assms
  by (auto simp: merge_mem_def SHMBUF_CHUNK_MAGIC_HEAD_def off_mclass_def off_magic_head_def
        off_data_def load_store_simps)

lemma free_merge_left:
  assumes "chunk_mclass m c = k" and "k \<le> SHMBUF_CHUNKSZ_MAX_BIT"
    and "(c - shmBufferSegmentMmapPtr cfg sid) AND 2 ^ k = 0"
    and "c + 2 ^ k < shmBufferSegmentMmapPtr cfg sid + shmbuf_segment_size cfg"
    and "free_header m (c + 2 ^ k) k"
  shows "free_merge cfg sid fl m c =
           free_merge cfg sid (dlist_delete fl (c + 2 ^ k)) (merge_mem m (c + 2 ^ k) c) c"
  using assms by (subst free_merge.simps) (simp add: free_header_def)

lemma free_merge_right:
  assumes "chunk_mclass m c = k" and "k \<le> SHMBUF_CHUNKSZ_MAX_BIT"
    and "(c - shmBufferSegmentMmapPtr cfg sid) AND 2 ^ k \<noteq> 0"
    and "2 ^ k \<le> c" and "shmBufferSegmentMmapPtr cfg sid \<le> c - 2 ^ k"
    and "free_header m (c - 2 ^ k) k"
  shows "free_merge cfg sid fl m c =
           free_merge cfg sid (dlist_delete fl (c - 2 ^ k)) (merge_mem m c (c - 2 ^ k)) (c - 2 ^ k)"
  using assms by (subst free_merge.simps) (simp add: free_header_def not_less)

lemma free_merge_top:
  assumes "chunk_mclass m c = k" and "k \<le> SHMBUF_CHUNKSZ_MAX_BIT"
    and "(c - shmBufferSegmentMmapPtr cfg sid) AND 2 ^ k = 0"
    and "shmBufferSegmentMmapPtr cfg sid + shmbuf_segment_size cfg \<le> c + 2 ^ k"
  shows "free_merge cfg sid fl m c = Some (Inr c, fl, m)"
  using assms by (subst free_merge.simps) simp

lemma free_merge_left_unlinked:
  assumes "chunk_mclass m c = k" and "k \<le> SHMBUF_CHUNKSZ_MAX_BIT"
    and "(c - shmBufferSegmentMmapPtr cfg sid) AND 2 ^ k = 0"
    and "SHMBUF_CHUNK_MAGIC_HEAD m (c + 2 ^ k) = SHMBUF_CHUNK_MAGIC_CODE"
    and "\<not> chain_is_linked m (c + 2 ^ k)"
  shows "free_merge cfg sid fl m c = Some (Inr c, fl, m)"
  using assms by (subst free_merge.simps) simp

lemma free_merge_right_unlinked:
  assumes "chunk_mclass m c = k" and "k \<le> SHMBUF_CHUNKSZ_MAX_BIT"
    and "(c - shmBufferSegmentMmapPtr cfg sid) AND 2 ^ k \<noteq> 0"
    and "SHMBUF_CHUNK_MAGIC_HEAD m (c - 2 ^ k) = SHMBUF_CHUNK_MAGIC_CODE"
    and "\<not> chain_is_linked m (c - 2 ^ k)"
  shows "free_merge cfg sid fl m c = Some (Inr c, fl, m)"
  using assms by (subst free_merge.simps) simp

lemma rung_top: "lists_of (rung base L L) = lists_of (\<lambda>_. [])"
  by (rule lists_of_eqI) (simp add: rung_def)

lemma rung_delete:
  assumes "j < L"
  shows "dlist_delete (lists_of (rung base L j)) (base + 2 ^ j) = lists_of (rung base L (j + 1))"
  unfolding delete_lists_of
proof (rule lists_of_eqI)
  fix i
  show "remove1 (base + 2 ^ j) (rung base L j i) = rung base L (j + 1) i"
    using assms by (auto simp: rung_def)
qed

lemma merge_chain:
  assumes g: "base = shmBufferSegmentMmapPtr cfg sid" "shmbuf_segment_size cfg = 2 ^ L"
    "L \<le> SHMBUF_CHUNKSZ_MAX_BIT"
  shows "SHMBUF_CHUNKSZ_MIN_BIT \<le> j \<Longrightarrow> j \<le> L \<Longrightarrow> chunk_mclass m base = j \<Longrightarrow>
         rung_headers m base L j \<Longrightarrow>
         \<exists>m'. free_merge cfg sid (lists_of (rung base L j)) m base =
                 Some (Inr base, lists_of (\<lambda>_. []), m') \<and>
               chunk_mclass m' base = L \<and>
               SHMBUF_CHUNK_MAGIC_HEAD m' base = SHMBUF_CHUNK_MAGIC_HEAD m base"
proof (induction "L - j" arbitrary: j m)
  case 0
  then have j: "j = L" by simp
  have "free_merge cfg sid (lists_of (rung base L L)) m base =
          Some (Inr base, lists_of (rung base L L), m)"
    using 0(4) g by (intro free_merge_top [of m base L]) (simp_all add: j)
  then show ?case using 0(4) by (simp add: j rung_top)
next
  case (Suc d)
  then have j: "SHMBUF_CHUNKSZ_MIN_BIT \<le> j" "j < L" "d = L - (j + 1)" by simp_all
  have j32: "j < 32" using j g(3) by (simp add: SHMBUF_CHUNKSZ_MAX_BIT_def)
  have od: "off_data \<le> 2 ^ j"
    using j by (intro pow_ge_off_data) (simp add: SHMBUF_CHUNKSZ_MIN_BIT_def)
  have lt: "(2::nat) ^ j < 2 ^ L" using j by (intro power_strict_increasing) simp_all
  have bh: "free_header m (base + 2 ^ j) j"
    using Suc(6) j by (simp add: rung_headers_def)
  define m1 where "m1 = merge_mem m (base + 2 ^ j) base"
  have step: "free_merge cfg sid (lists_of (rung base L j)) m base =
              free_merge cfg sid (lists_of (rung base L (j + 1))) m1 base"
    unfolding m1_def rung_delete [OF j(2), symmetric]
    using Suc(5) j g lt bh by (intro free_merge_left) simp_all
  have "j + 1 < 32 + 1" using j32 by simp
  also have "\<dots> < (2::nat) ^ 32" by simp
  finally have jb: "j + 1 < 2 ^ 32" .
  have c1: "chunk_mclass m1 base = j + 1"
    unfolding m1_def using Suc(5) jb od by (intro merge_mem_class) simp_all
  have mg: "SHMBUF_CHUNK_MAGIC_HEAD m1 base = SHMBUF_CHUNK_MAGIC_HEAD m base"
    unfolding m1_def using od by (intro merge_mem_magic) simp
  have rh: "rung_headers m1 base L (j + 1)"
    unfolding rung_headers_def
  proof (intro allI impI)
    fix i assume i: "j + 1 \<le> i \<and> i < L"
    then have "(2::nat) ^ (j + 1) \<le> 2 ^ i" by (intro power_increasing) simp_all
    then have p: "(2::nat) ^ j + 2 ^ j \<le> 2 ^ i" by simp
    have "free_header m1 (base + 2 ^ i) i = free_header m (base + 2 ^ i) i"
      by (rule free_header_cong)
         (use od p in \<open>simp add: m1_def merge_mem_outside off_mclass_def off_data_def\<close>)
    then show "free_header m1 (base + 2 ^ i) i"
      using Suc(6) i by (simp add: rung_headers_def)
  qed
  obtain m' where m': "free_merge cfg sid (lists_of (rung base L (j + 1))) m1 base =
                 Some (Inr base, lists_of (\<lambda>_. []), m')"
      "chunk_mclass m' base = L"
      "SHMBUF_CHUNK_MAGIC_HEAD m' base = SHMBUF_CHUNK_MAGIC_HEAD m1 base"
    using Suc(1) [of "j + 1" m1] j c1 rh by auto
  show ?case using step m' mg by simp
qed


lemma chain_link_outside: "a < c \<or> c + 16 \<le> a \<Longrightarrow> chain_link m c h a = m a"
  by (auto simp: chain_link_def off_prev_def off_next_def store64_outside)

lemma chain_link_header:
  assumes "chunk_mclass m c = k" and "SHMBUF_CHUNK_MAGIC_HEAD m c = SHMBUF_CHUNK_MAGIC_CODE"
    and "0 < h" and "h < 2 ^ 64"
  shows "free_header (chain_link m c h) c k"
  using assms
  by (simp add: free_header_def chain_link_def chunk_mclass_def SHMBUF_CHUNK_MAGIC_HEAD_def
        chain_is_linked_def off_prev_def off_next_def off_mclass_def off_magic_head_def
        load_store_simps)

lemma set_seg_nth:
  "sid < length (segments s) \<Longrightarrow> segments (set_seg s sid x) ! sid = x"
  by (simp add: set_seg_def)

lemma set_seg_mem: "mem (set_seg s sid x) = mem s"
  by (simp add: set_seg_def)

lemma set_seg_length: "length (segments (set_seg s sid x)) = length (segments s)"
  by (simp add: set_seg_def)

text \<open>
  \<^verbatim>\<open>pgstrom_init_shmbuf\<close> (lines 960-975) accepts a segment size only if it is a power of
  two, between 32MB and 4GB, so a segment is one chunk of class \<open>L\<close> with
  \<open>25 \<le> L \<le> 32\<close>; the facts below need \<open>7 \<le> L \<le> 32\<close> only. The segment and its
  directory entry lie in the 64-bit address space.
\<close>

definition segment_geometry :: "config \<Rightarrow> nat \<Rightarrow> nat \<Rightarrow> bool" where
  "segment_geometry cfg segment_id L =
     (shmbuf_segment_size cfg = 2 ^ L \<and>
      SHMBUF_CHUNKSZ_MIN_BIT \<le> L \<and> L \<le> SHMBUF_CHUNKSZ_MAX_BIT \<and>
      shmBufferSegmentMmapPtr cfg segment_id + 2 ^ L \<le> 2 ^ 64 \<and>
      segment_addr cfg segment_id + 440 \<le> 2 ^ 64)"

lemma ladder_nth:
  "k \<le> SHMBUF_CHUNKSZ_MAX_BIT \<Longrightarrow>
     ladder base L k ! (k - SHMBUF_CHUNKSZ_MIN_BIT) = base # rung base L k (k - SHMBUF_CHUNKSZ_MIN_BIT)"
  by (simp add: ladder_def nth_lists_of num_classes_def)

lemma ladder_pop:
  "(ladder base L k)[k - SHMBUF_CHUNKSZ_MIN_BIT := rung base L k (k - SHMBUF_CHUNKSZ_MIN_BIT)] =
     lists_of (rung base L k)"
  by (simp add: ladder_def lists_of_update)

lemma rung_headers_frame:
  assumes "rung_headers m base L j" and "\<And>a. base + 2 ^ j \<le> a \<Longrightarrow> m' a = m a"
  shows "rung_headers m' base L j"
  unfolding rung_headers_def
proof (intro allI impI)
  fix i assume i: "j \<le> i \<and> i < L"
  then have p: "(2::nat) ^ j \<le> 2 ^ i" by (intro power_increasing) simp_all
  have "free_header m' (base + 2 ^ i) i = free_header m (base + 2 ^ i) i"
  proof (rule free_header_cong)
    fix a assume "base + 2 ^ i \<le> a"
    then have "base + 2 ^ j \<le> a" using p by linarith
    then show "m' a = m a" by (rule assms(2))
  qed
  then show "free_header m' (base + 2 ^ i) i"
    using assms(1) i by (simp add: rung_headers_def)
qed

lemma alloc_fresh:
  assumes g: "segment_geometry cfg sid L" and b: "base = shmBufferSegmentMmapPtr cfg sid"
    and sid: "sid < length (segments s)"
    and fl: "free_chunks (segments s ! sid) = ladder base L L"
    and h: "free_header (mem s) base L"
    and n: "unat n + 44 \<le> 2 ^ L"
  shows "\<exists>s1. shmBufferAllocChunkFromSegment cfg s sid n = (Inr (Some base), s1) \<and>
           length (segments s1) = length (segments s) \<and>
           free_chunks (segments s1 ! sid) = lists_of (rung base L (request_class n)) \<and>
           num_actives (segments s1 ! sid) = num_actives (segments s ! sid) + 1 \<and>
           active_chunk (mem s1) base (request_class n) \<and>
           rung_headers (mem s1) base L (request_class n)"
proof -
  define k where "k = request_class n"
  have L: "SHMBUF_CHUNKSZ_MIN_BIT \<le> L" "L \<le> SHMBUF_CHUNKSZ_MAX_BIT"
      "base + 2 ^ L \<le> 2 ^ 64" "segment_addr cfg sid + 440 \<le> 2 ^ 64"
    using g b by (simp_all add: segment_geometry_def)
  have kL: "k \<le> L" unfolding k_def using n L(1,2) by (rule request_class_le)
  have k7: "SHMBUF_CHUNKSZ_MIN_BIT \<le> k" by (simp add: k_def request_class_def)
  have ac: "\<not> alloc_class n > SHMBUF_CHUNKSZ_MAX_BIT"
    using kL L(2) by (simp add: k_def request_class_def)
  have "(2::nat) ^ L \<le> 2 ^ 32"
    using L(2) by (intro power_increasing) (simp_all add: SHMBUF_CHUNKSZ_MAX_BIT_def)
  then have "unat n + 44 < 2 ^ 64" using n by simp
  then have nk: "off_data + unat n + 4 \<le> 2 ^ k"
    unfolding k_def by (rule request_class_holds)
  have pk: "(2::nat) ^ k \<le> 2 ^ L" using kL by (intro power_increasing) simp_all
  have "\<exists>m1. (if ladder base L L ! (k - SHMBUF_CHUNKSZ_MIN_BIT) = []
               then shmBufferSplitChunk cfg sid (ladder base L L) (mem s) (k + 1)
               else (Inr True, ladder base L L, mem s)) = (Inr True, ladder base L k, m1) \<and>
              free_header m1 base k \<and> rung_headers m1 base L k"
  proof (cases "k = L")
    case True
    have "rung_headers (mem s) base L L" by (auto simp: rung_headers_def)
    then show ?thesis using h L(2) by (simp add: True ladder_nth)
  next
    case False
    then have "k < L" using kL by simp
    then have e: "ladder base L L ! (k - SHMBUF_CHUNKSZ_MIN_BIT) = []"
      using k7 L(2) by (simp add: ladder_def nth_lists_of num_classes_def rung_def)
    show ?thesis
      unfolding e using split_ladder [OF L(2) L(4) h, of "k + 1"] k7 \<open>k < L\<close> by simp
  qed
  then obtain m1 where m1:
      "(if ladder base L L ! (k - SHMBUF_CHUNKSZ_MIN_BIT) = []
        then shmBufferSplitChunk cfg sid (ladder base L L) (mem s) (k + 1)
        else (Inr True, ladder base L L, mem s)) = (Inr True, ladder base L k, m1)"
      "free_header m1 base k" "rung_headers m1 base L k"
    by blast
  have eq: "shmBufferAllocChunkFromSegment cfg s sid n =
              alloc_take cfg s sid n k (ladder base L k) m1"
  proof (cases "ladder base L L ! (k - SHMBUF_CHUNKSZ_MIN_BIT) = []")
    case True
    then show ?thesis
      using m1(1) by (simp add: alloc_from_segment_unfold [OF sid ac] fl k_def [symmetric])
  next
    case False
    then show ?thesis
      using m1(1) by (simp add: alloc_from_segment_unfold [OF sid ac] fl k_def [symmetric])
  qed
  have nth: "ladder base L k ! (k - SHMBUF_CHUNKSZ_MIN_BIT) =
               base # rung base L k (k - SHMBUF_CHUNKSZ_MIN_BIT)"
    using kL L(2) by (intro ladder_nth) simp
  have c64: "base + 2 ^ k \<le> 2 ^ 64" using pk L(3) by linarith
  have sz: "shmbuf_segment_size cfg = 2 ^ L" using g by (simp add: segment_geometry_def)
  have sg: "shmBufferSegmentMmapPtr cfg sid \<le> base"
      "base + 2 ^ k \<le> shmBufferSegmentMmapPtr cfg sid + shmbuf_segment_size cfg"
    unfolding sz b [symmetric] using pk by simp_all
  obtain m' where m':
      "alloc_take cfg s sid n k (ladder base L k) m1 =
         (Inr (Some base),
          set_seg (s\<lparr>mem := m'\<rparr>) sid
            ((segments s ! sid)\<lparr>free_chunks := lists_of (rung base L k),
               num_actives := num_actives (segments s ! sid) + 1\<rparr>))"
      "active_chunk m' base k" "\<forall>a. a < base \<or> base + 2 ^ k \<le> a \<longrightarrow> m' a = m1 a"
    using alloc_take_head [where m = m1 and s = s, OF nth _ _ nk c64 sg] m1(2)
    unfolding ladder_pop free_header_def by blast
  have rh: "rung_headers m' base L k"
    using m1(3) by (rule rung_headers_frame) (simp add: m'(3))
  show ?thesis
    unfolding eq m'(1) k_def [symmetric]
    using sid m'(2) rh by (simp add: set_seg_nth set_seg_mem set_seg_length)
qed


lemma free_push_header:
  assumes c: "chunk_mclass m c = k" "SHMBUF_CHUNK_MAGIC_HEAD m c = SHMBUF_CHUNK_MAGIC_CODE"
    and k: "SHMBUF_CHUNKSZ_MIN_BIT \<le> k" "k \<le> SHMBUF_CHUNKSZ_MAX_BIT"
    and a: "segment_addr cfg sid + 440 \<le> 2 ^ 64"
    and na: "num_actives (segments s ! sid) \<noteq> 0"
  shows "\<exists>m1. free_push cfg s sid fl m c =
           (Inr (num_actives (segments s ! sid) - 1 = 0),
            set_seg (s\<lparr>mem := m1\<rparr>) sid
              ((segments s ! sid)\<lparr>free_chunks := dlist_push_head fl (k - SHMBUF_CHUNKSZ_MIN_BIT) c,
                 num_actives := num_actives (segments s ! sid) - 1\<rparr>)) \<and>
           free_header m1 c k \<and> (\<forall>a. a < c \<or> c + 16 \<le> a \<longrightarrow> m1 a = m a)"
proof -
  define h where "h = free_chunks_addr cfg sid (k - SHMBUF_CHUNKSZ_MIN_BIT)"
  define m1 where "m1 = chain_link m c h"
  have ha: "0 < h" "h < 2 ^ 64"
    using a k by (auto simp: h_def free_chunks_addr_def SHMBUF_CHUNKSZ_MIN_BIT_def
        SHMBUF_CHUNKSZ_MAX_BIT_def)
  have f: "free_header m1 c k"
    unfolding m1_def using c ha by (rule chain_link_header)
  have o: "\<forall>a. a < c \<or> c + 16 \<le> a \<longrightarrow> m1 a = m a"
    by (simp add: m1_def chain_link_outside)
  have pos: "0 < num_actives (segments s ! sid)"
    using na by (simp add: word_greater_zero_iff)
  have "free_push cfg s sid fl m c =
           (Inr (num_actives (segments s ! sid) - 1 = 0),
            set_seg (s\<lparr>mem := m1\<rparr>) sid
              ((segments s ! sid)\<lparr>free_chunks := dlist_push_head fl (k - SHMBUF_CHUNKSZ_MIN_BIT) c,
                 num_actives := num_actives (segments s ! sid) - 1\<rparr>))"
    unfolding free_push_def Let_def c(1) m1_def h_def
    using k pos by simp
  then show ?thesis using f o by blast
qed

lemma ladder_push:
  "SHMBUF_CHUNKSZ_MIN_BIT \<le> L \<Longrightarrow> L \<le> SHMBUF_CHUNKSZ_MAX_BIT \<Longrightarrow>
     dlist_push_head (lists_of (\<lambda>_. [])) (L - SHMBUF_CHUNKSZ_MIN_BIT) base = ladder base L L"
  unfolding ladder_def
  by (simp add: push_head_lists_of num_classes_def) (rule lists_of_eqI, simp add: rung_def)

lemma free_finish:
  assumes L: "SHMBUF_CHUNKSZ_MIN_BIT \<le> L" "L \<le> SHMBUF_CHUNKSZ_MAX_BIT"
      "segment_addr cfg sid + 440 \<le> 2 ^ 64"
    and sid: "sid < length (segments s)"
    and c: "SHMBUF_CHUNKSZ_MIN_BIT \<le> chunk_mclass (mem s) c"
      "chunk_mclass (mem s) c \<le> SHMBUF_CHUNKSZ_MAX_BIT" "SHMBUF_CHUNK_CHECK_MAGIC (mem s) c"
    and m: "free_merge cfg sid (free_chunks (segments s ! sid)) (mem s) c =
              Some (Inr base, lists_of (\<lambda>_. []), m')"
      "chunk_mclass m' base = L" "SHMBUF_CHUNK_MAGIC_HEAD m' base = SHMBUF_CHUNK_MAGIC_CODE"
    and na: "num_actives (segments s ! sid) = 1"
  shows "\<exists>s2. shmBufferFreeChunk cfg s sid c = Some (Inr True, s2) \<and>
           length (segments s2) = length (segments s) \<and>
           free_chunks (segments s2 ! sid) = ladder base L L \<and>
           num_actives (segments s2 ! sid) = 0 \<and>
           free_header (mem s2) base L"
proof -
  have na0: "num_actives (segments s ! sid) \<noteq> 0" by (simp add: na)
  obtain m1 where m1:
      "free_push cfg s sid (lists_of (\<lambda>_. [])) m' base =
           (Inr (num_actives (segments s ! sid) - 1 = 0),
            set_seg (s\<lparr>mem := m1\<rparr>) sid
              ((segments s ! sid)\<lparr>free_chunks :=
                   dlist_push_head (lists_of (\<lambda>_. [])) (L - SHMBUF_CHUNKSZ_MIN_BIT) base,
                 num_actives := num_actives (segments s ! sid) - 1\<rparr>))"
      "free_header m1 base L"
    using free_push_header [where fl = "lists_of (\<lambda>_. [])", OF m(2) m(3) L(1) L(2) L(3) na0]
    by auto
  have "shmBufferFreeChunk cfg s sid c =
          Some (free_push cfg s sid (lists_of (\<lambda>_. [])) m' base)"
    unfolding shmBufferFreeChunk_def Let_def m(1)
    using c by simp
  then show ?thesis
    unfolding m1(1) ladder_push [OF L(1) L(2)]
    using sid m1(2) by (simp add: na set_seg_nth set_seg_mem set_seg_length)
qed

lemma free_base:
  assumes g: "segment_geometry cfg sid L" and b: "base = shmBufferSegmentMmapPtr cfg sid"
    and sid: "sid < length (segments s)"
    and fl: "free_chunks (segments s ! sid) = lists_of (rung base L k)"
    and ac: "active_chunk (mem s) base k"
    and rh: "rung_headers (mem s) base L k"
    and k: "SHMBUF_CHUNKSZ_MIN_BIT \<le> k" "k \<le> L"
    and na: "num_actives (segments s ! sid) = 1"
  shows "\<exists>s2. shmBufferFreeChunk cfg s sid base = Some (Inr True, s2) \<and>
           length (segments s2) = length (segments s) \<and>
           free_chunks (segments s2 ! sid) = ladder base L L \<and>
           num_actives (segments s2 ! sid) = 0 \<and>
           free_header (mem s2) base L"
proof -
  have L: "shmbuf_segment_size cfg = 2 ^ L" "SHMBUF_CHUNKSZ_MIN_BIT \<le> L"
      "L \<le> SHMBUF_CHUNKSZ_MAX_BIT"
      "base + 2 ^ L \<le> 2 ^ 64" "segment_addr cfg sid + 440 \<le> 2 ^ 64"
    using g b by (simp_all add: segment_geometry_def)
  have pk: "(2::nat) ^ k \<le> 2 ^ L" using k by (intro power_increasing) simp_all
  have c64: "base + 2 ^ k \<le> 2 ^ 64" using pk L(4) by linarith
  have cm: "chunk_mclass (mem s) base = k"
    and mh: "SHMBUF_CHUNK_MAGIC_HEAD (mem s) base = SHMBUF_CHUNK_MAGIC_CODE"
    using ac by (simp_all add: active_chunk_def)
  have ck: "SHMBUF_CHUNK_CHECK_MAGIC (mem s) base"
    using ac c64 by (rule active_chunk_check)
  obtain m' where m': "free_merge cfg sid (lists_of (rung base L k)) (mem s) base =
                 Some (Inr base, lists_of (\<lambda>_. []), m')"
      "chunk_mclass m' base = L"
      "SHMBUF_CHUNK_MAGIC_HEAD m' base = SHMBUF_CHUNK_MAGIC_HEAD (mem s) base"
    using merge_chain [OF b L(1) L(3) k cm rh] by blast
  have kk: "SHMBUF_CHUNKSZ_MIN_BIT \<le> chunk_mclass (mem s) base"
      "chunk_mclass (mem s) base \<le> SHMBUF_CHUNKSZ_MAX_BIT"
    using k L(3) by (simp_all add: cm)
  show ?thesis
    using free_finish [where base = base and m' = m', OF L(2) L(3) L(5) sid kk ck _ m'(2) _ na]
      m'(1,3) mh fl
    by simp
qed

text \<open>
  A segment that holds exactly one free chunk, of the class of the whole segment, and
  no active chunk: the state \<^verbatim>\<open>shmBufferCreateSegment\<close> leaves a segment in.
\<close>

definition one_free_chunk :: "config \<Rightarrow> state \<Rightarrow> nat \<Rightarrow> nat \<Rightarrow> bool" where
  "one_free_chunk cfg s segment_id L =
     (free_chunks (segments s ! segment_id) =
        (replicate num_classes [])[L - SHMBUF_CHUNKSZ_MIN_BIT := [shmBufferSegmentMmapPtr cfg segment_id]] \<and>
      num_actives (segments s ! segment_id) = 0 \<and>
      free_header (mem s) (shmBufferSegmentMmapPtr cfg segment_id) L)"

lemma rung_headers_step:
  assumes "free_header m (base + 2 ^ k) k" and "rung_headers m base L (k + 1)"
  shows "rung_headers m base L k"
  unfolding rung_headers_def
proof (intro allI impI)
  fix i assume i: "k \<le> i \<and> i < L"
  show "free_header m (base + 2 ^ i) i"
  proof (cases "i = k")
    case True
    then show ?thesis using assms(1) by simp
  next
    case False
    then have "k + 1 \<le> i" using i by arith
    then show ?thesis using assms(2) i by (simp add: rung_headers_def)
  qed
qed

lemma rung_headers_tail: "rung_headers m base L k \<Longrightarrow> rung_headers m base L (k + 1)"
  by (simp add: rung_headers_def)

lemma rung_pop:
  "k < L \<Longrightarrow> SHMBUF_CHUNKSZ_MIN_BIT \<le> k \<Longrightarrow>
     lists_of ((rung base L k)(k - SHMBUF_CHUNKSZ_MIN_BIT := [])) = lists_of (rung base L (k + 1))"
  by (rule lists_of_eqI) (auto simp: rung_def)

lemma rung_push:
  "k < L \<Longrightarrow> SHMBUF_CHUNKSZ_MIN_BIT \<le> k \<Longrightarrow>
     lists_of ((rung base L (k + 1))(k - SHMBUF_CHUNKSZ_MIN_BIT := [base + 2 ^ k])) =
     lists_of (rung base L k)"
  by (rule lists_of_eqI) (auto simp: rung_def)

lemma rung_delete_base:
  "k < L \<Longrightarrow> SHMBUF_CHUNKSZ_MIN_BIT \<le> k \<Longrightarrow>
     dlist_delete (lists_of ((rung base L (k + 1))(k - SHMBUF_CHUNKSZ_MIN_BIT := [base]))) base =
     lists_of (rung base L (k + 1))"
  unfolding delete_lists_of by (rule lists_of_eqI) (auto simp: rung_def)

text \<open>
  A second allocation of the same size takes the other half of the last split; then
  the two halves are freed, in either order.
\<close>

lemma alloc_sibling:
  assumes g: "segment_geometry cfg sid L" and b: "base = shmBufferSegmentMmapPtr cfg sid"
    and sid: "sid < length (segments s)"
    and fl: "free_chunks (segments s ! sid) = lists_of (rung base L (request_class n))"
    and ac: "active_chunk (mem s) base (request_class n)"
    and rh: "rung_headers (mem s) base L (request_class n)"
    and kL: "request_class n < L"
    and n: "unat n + 44 \<le> 2 ^ L"
  shows "\<exists>s2. shmBufferAllocChunkFromSegment cfg s sid n =
                (Inr (Some (base + 2 ^ request_class n)), s2) \<and>
           length (segments s2) = length (segments s) \<and>
           free_chunks (segments s2 ! sid) = lists_of (rung base L (request_class n + 1)) \<and>
           num_actives (segments s2 ! sid) = num_actives (segments s ! sid) + 1 \<and>
           active_chunk (mem s2) base (request_class n) \<and>
           active_chunk (mem s2) (base + 2 ^ request_class n) (request_class n) \<and>
           rung_headers (mem s2) base L (request_class n + 1)"
proof -
  define k where "k = request_class n"
  have L: "SHMBUF_CHUNKSZ_MIN_BIT \<le> L" "L \<le> SHMBUF_CHUNKSZ_MAX_BIT"
      "base + 2 ^ L \<le> 2 ^ 64" "segment_addr cfg sid + 440 \<le> 2 ^ 64"
    using g b by (simp_all add: segment_geometry_def)
  have k7: "SHMBUF_CHUNKSZ_MIN_BIT \<le> k" by (simp add: k_def request_class_def)
  have k6: "6 \<le> k" using k7 by (simp add: SHMBUF_CHUNKSZ_MIN_BIT_def)
  have kl: "k < L" using kL by (simp add: k_def)
  have ac': "\<not> alloc_class n > SHMBUF_CHUNKSZ_MAX_BIT"
    using kL L(2) by (simp add: request_class_def)
  have "(2::nat) ^ L \<le> 2 ^ 32"
    using L(2) by (intro power_increasing) (simp_all add: SHMBUF_CHUNKSZ_MAX_BIT_def)
  then have "unat n + 44 < 2 ^ 64" using n by simp
  then have nk: "off_data + unat n + 4 \<le> 2 ^ k"
    unfolding k_def by (rule request_class_holds)
  have "(2::nat) ^ (k + 1) \<le> 2 ^ L" using kl by (intro power_increasing) simp_all
  then have pk: "(2::nat) ^ k + 2 ^ k \<le> 2 ^ L" by simp
  have c64: "base + 2 ^ k + 2 ^ k \<le> 2 ^ 64" using pk L(3) by linarith
  have sz: "shmbuf_segment_size cfg = 2 ^ L" using g by (simp add: segment_geometry_def)
  have sg: "shmBufferSegmentMmapPtr cfg sid \<le> base + 2 ^ k"
      "base + 2 ^ k + 2 ^ k \<le> shmBufferSegmentMmapPtr cfg sid + shmbuf_segment_size cfg"
    unfolding sz b [symmetric] using pk by simp_all
  have ki: "k - SHMBUF_CHUNKSZ_MIN_BIT < num_classes"
    using kl L(2) by (simp add: num_classes_def)
  have nth: "lists_of (rung base L k) ! (k - SHMBUF_CHUNKSZ_MIN_BIT) = (base + 2 ^ k) # []"
    using ki k7 kl by (simp add: nth_lists_of rung_def)
  have bh: "free_header (mem s) (base + 2 ^ k) k"
    using rh kl by (simp add: rung_headers_def k_def)
  have eq: "shmBufferAllocChunkFromSegment cfg s sid n =
              alloc_take cfg s sid n k (lists_of (rung base L k)) (mem s)"
    using nth by (simp add: alloc_from_segment_unfold [OF sid ac'] fl k_def [symmetric])
  obtain m' where m':
      "alloc_take cfg s sid n k (lists_of (rung base L k)) (mem s) =
         (Inr (Some (base + 2 ^ k)),
          set_seg (s\<lparr>mem := m'\<rparr>) sid
            ((segments s ! sid)\<lparr>free_chunks := lists_of (rung base L (k + 1)),
               num_actives := num_actives (segments s ! sid) + 1\<rparr>))"
      "active_chunk m' (base + 2 ^ k) k"
      "\<forall>a. a < base + 2 ^ k \<or> base + 2 ^ k + 2 ^ k \<le> a \<longrightarrow> m' a = mem s a"
    using alloc_take_head [where m = "mem s" and s = s, OF nth _ _ nk c64 sg] bh
    unfolding lists_of_update rung_pop [OF kl k7] free_header_def by blast
  have a1: "active_chunk m' base k"
    using ac active_chunk_cong [of base k m' "mem s"] m'(3) k6 by (simp add: k_def)
  have "rung_headers (mem s) base L (k + 1)"
    using rh unfolding k_def by (rule rung_headers_tail)
  then have rh': "rung_headers m' base L (k + 1)"
    by (rule rung_headers_frame) (simp add: m'(3))
  show ?thesis
    unfolding eq m'(1) k_def [symmetric]
    using sid m'(2) a1 rh' by (simp add: set_seg_nth set_seg_mem set_seg_length)
qed

lemma free_left_first:
  assumes g: "segment_geometry cfg sid L" and b: "base = shmBufferSegmentMmapPtr cfg sid"
    and sid: "sid < length (segments s)"
    and fl: "free_chunks (segments s ! sid) = lists_of (rung base L (k + 1))"
    and a1: "active_chunk (mem s) base k" and a2: "active_chunk (mem s) (base + 2 ^ k) k"
    and rh: "rung_headers (mem s) base L (k + 1)"
    and k: "SHMBUF_CHUNKSZ_MIN_BIT \<le> k" "k < L"
    and na: "num_actives (segments s ! sid) = 2"
  shows "\<exists>s3. shmBufferFreeChunk cfg s sid base = Some (Inr False, s3) \<and>
           length (segments s3) = length (segments s) \<and>
           free_chunks (segments s3 ! sid) =
             lists_of ((rung base L (k + 1))(k - SHMBUF_CHUNKSZ_MIN_BIT := [base])) \<and>
           num_actives (segments s3 ! sid) = 1 \<and>
           free_header (mem s3) base k \<and>
           active_chunk (mem s3) (base + 2 ^ k) k \<and>
           rung_headers (mem s3) base L (k + 1)"
proof -
  have L: "shmbuf_segment_size cfg = 2 ^ L" "SHMBUF_CHUNKSZ_MIN_BIT \<le> L"
      "L \<le> SHMBUF_CHUNKSZ_MAX_BIT"
      "base + 2 ^ L \<le> 2 ^ 64" "segment_addr cfg sid + 440 \<le> 2 ^ 64"
    using g b by (simp_all add: segment_geometry_def)
  have k6: "6 \<le> k" using k(1) by (simp add: SHMBUF_CHUNKSZ_MIN_BIT_def)
  have kM: "k \<le> SHMBUF_CHUNKSZ_MAX_BIT" using k(2) L(3) by simp
  have ki: "k - SHMBUF_CHUNKSZ_MIN_BIT < num_classes"
    using kM by (simp add: num_classes_def)
  have pk: "(2::nat) ^ k \<le> 2 ^ L" using k by (intro power_increasing) simp_all
  have c64: "base + 2 ^ k \<le> 2 ^ 64" using pk L(4) by linarith
  have p16: "(16::nat) \<le> 2 ^ k"
    using pow_ge_off_data [OF k6] by (simp add: off_data_def)
  have cm: "chunk_mclass (mem s) base = k"
    and mh: "SHMBUF_CHUNK_MAGIC_HEAD (mem s) base = SHMBUF_CHUNK_MAGIC_CODE"
    using a1 by (simp_all add: active_chunk_def)
  have bm: "SHMBUF_CHUNK_MAGIC_HEAD (mem s) (base + 2 ^ k) = SHMBUF_CHUNK_MAGIC_CODE"
    and bl: "\<not> chain_is_linked (mem s) (base + 2 ^ k)"
    using a2 by (simp_all add: active_chunk_def)
  have ck: "SHMBUF_CHUNK_CHECK_MAGIC (mem s) base"
    using a1 c64 by (rule active_chunk_check)
  have fm: "free_merge cfg sid (lists_of (rung base L (k + 1))) (mem s) base =
              Some (Inr base, lists_of (rung base L (k + 1)), mem s)"
    using cm kM _ bm bl by (rule free_merge_left_unlinked) (simp add: b)
  have na0: "num_actives (segments s ! sid) \<noteq> 0" by (simp add: na)
  obtain m1 where m1:
      "free_push cfg s sid (lists_of (rung base L (k + 1))) (mem s) base =
           (Inr (num_actives (segments s ! sid) - 1 = 0),
            set_seg (s\<lparr>mem := m1\<rparr>) sid
              ((segments s ! sid)\<lparr>free_chunks :=
                   dlist_push_head (lists_of (rung base L (k + 1))) (k - SHMBUF_CHUNKSZ_MIN_BIT) base,
                 num_actives := num_actives (segments s ! sid) - 1\<rparr>))"
      "free_header m1 base k" "\<forall>a. a < base \<or> base + 16 \<le> a \<longrightarrow> m1 a = mem s a"
    using free_push_header [where fl = "lists_of (rung base L (k + 1))", OF cm mh k(1) kM L(5) na0]
    by blast
  have e: "rung base L (k + 1) (k - SHMBUF_CHUNKSZ_MIN_BIT) = []"
    using k by (simp add: rung_def)
  have ph: "dlist_push_head (lists_of (rung base L (k + 1))) (k - SHMBUF_CHUNKSZ_MIN_BIT) base =
            lists_of ((rung base L (k + 1))(k - SHMBUF_CHUNKSZ_MIN_BIT := [base]))"
    using ki e by (simp add: push_head_lists_of)
  have a2': "active_chunk m1 (base + 2 ^ k) k"
    using a2 active_chunk_cong [of "base + 2 ^ k" k m1 "mem s"] m1(3) k6 p16 by simp
  have rh': "rung_headers m1 base L (k + 1)"
    using rh by (rule rung_headers_frame) (use m1(3) p16 in simp)
  have "shmBufferFreeChunk cfg s sid base =
          Some (free_push cfg s sid (lists_of (rung base L (k + 1))) (mem s) base)"
    unfolding shmBufferFreeChunk_def Let_def fl fm
    using cm ck k(1) kM by simp
  then show ?thesis
    unfolding m1(1) ph
    using sid m1(2) a2' rh' by (simp add: na set_seg_nth set_seg_mem set_seg_length)
qed

lemma free_right_first:
  assumes g: "segment_geometry cfg sid L" and b: "base = shmBufferSegmentMmapPtr cfg sid"
    and sid: "sid < length (segments s)"
    and fl: "free_chunks (segments s ! sid) = lists_of (rung base L (k + 1))"
    and a1: "active_chunk (mem s) base k" and a2: "active_chunk (mem s) (base + 2 ^ k) k"
    and rh: "rung_headers (mem s) base L (k + 1)"
    and k: "SHMBUF_CHUNKSZ_MIN_BIT \<le> k" "k < L"
    and na: "num_actives (segments s ! sid) = 2"
  shows "\<exists>s3. shmBufferFreeChunk cfg s sid (base + 2 ^ k) = Some (Inr False, s3) \<and>
           length (segments s3) = length (segments s) \<and>
           free_chunks (segments s3 ! sid) = lists_of (rung base L k) \<and>
           num_actives (segments s3 ! sid) = 1 \<and>
           active_chunk (mem s3) base k \<and>
           rung_headers (mem s3) base L k"
proof -
  have L: "shmbuf_segment_size cfg = 2 ^ L" "SHMBUF_CHUNKSZ_MIN_BIT \<le> L"
      "L \<le> SHMBUF_CHUNKSZ_MAX_BIT"
      "base + 2 ^ L \<le> 2 ^ 64" "segment_addr cfg sid + 440 \<le> 2 ^ 64"
    using g b by (simp_all add: segment_geometry_def)
  have k6: "6 \<le> k" using k(1) by (simp add: SHMBUF_CHUNKSZ_MIN_BIT_def)
  have kM: "k \<le> SHMBUF_CHUNKSZ_MAX_BIT" using k(2) L(3) by simp
  have ki: "k - SHMBUF_CHUNKSZ_MIN_BIT < num_classes"
    using kM by (simp add: num_classes_def)
  have "(2::nat) ^ (k + 1) \<le> 2 ^ L" using k(2) by (intro power_increasing) simp_all
  then have pk: "(2::nat) ^ k + 2 ^ k \<le> 2 ^ L" by simp
  have c64: "base + 2 ^ k + 2 ^ k \<le> 2 ^ 64" using pk L(4) by linarith
  have cm: "chunk_mclass (mem s) (base + 2 ^ k) = k"
    and mh: "SHMBUF_CHUNK_MAGIC_HEAD (mem s) (base + 2 ^ k) = SHMBUF_CHUNK_MAGIC_CODE"
    using a2 by (simp_all add: active_chunk_def)
  have bm: "SHMBUF_CHUNK_MAGIC_HEAD (mem s) (base + 2 ^ k - 2 ^ k) = SHMBUF_CHUNK_MAGIC_CODE"
    and bl: "\<not> chain_is_linked (mem s) (base + 2 ^ k - 2 ^ k)"
    using a1 by (simp_all add: active_chunk_def)
  have ck: "SHMBUF_CHUNK_CHECK_MAGIC (mem s) (base + 2 ^ k)"
    using a2 c64 by (rule active_chunk_check)
  have fm: "free_merge cfg sid (lists_of (rung base L (k + 1))) (mem s) (base + 2 ^ k) =
              Some (Inr (base + 2 ^ k), lists_of (rung base L (k + 1)), mem s)"
    using cm kM _ bm bl by (rule free_merge_right_unlinked) (simp add: b)
  have na0: "num_actives (segments s ! sid) \<noteq> 0" by (simp add: na)
  obtain m1 where m1:
      "free_push cfg s sid (lists_of (rung base L (k + 1))) (mem s) (base + 2 ^ k) =
           (Inr (num_actives (segments s ! sid) - 1 = 0),
            set_seg (s\<lparr>mem := m1\<rparr>) sid
              ((segments s ! sid)\<lparr>free_chunks :=
                   dlist_push_head (lists_of (rung base L (k + 1))) (k - SHMBUF_CHUNKSZ_MIN_BIT)
                     (base + 2 ^ k),
                 num_actives := num_actives (segments s ! sid) - 1\<rparr>))"
      "free_header m1 (base + 2 ^ k) k"
      "\<forall>a. a < base + 2 ^ k \<or> base + 2 ^ k + 16 \<le> a \<longrightarrow> m1 a = mem s a"
    using free_push_header [where fl = "lists_of (rung base L (k + 1))", OF cm mh k(1) kM L(5) na0]
    by blast
  have e: "rung base L (k + 1) (k - SHMBUF_CHUNKSZ_MIN_BIT) = []"
    using k by (simp add: rung_def)
  have ph: "dlist_push_head (lists_of (rung base L (k + 1))) (k - SHMBUF_CHUNKSZ_MIN_BIT)
              (base + 2 ^ k) = lists_of (rung base L k)"
    using ki e rung_push [OF k(2) k(1), of base] by (simp add: push_head_lists_of)
  have p16: "(16::nat) \<le> 2 ^ k"
    using pow_ge_off_data [OF k6] by (simp add: off_data_def)
  have "active_chunk m1 base k = active_chunk (mem s) base k"
  proof (rule active_chunk_cong)
    fix a assume "base \<le> a" "a < base + 2 ^ k"
    then show "m1 a = mem s a" using m1(3) by blast
  qed (rule k6)
  then have a1': "active_chunk m1 base k" using a1 by simp
  have "rung_headers m1 base L (k + 1)"
  proof (rule rung_headers_frame [OF rh])
    fix a assume "base + 2 ^ (k + 1) \<le> a"
    then have "base + 2 ^ k + 16 \<le> a" using p16 by simp
    then show "m1 a = mem s a" using m1(3) by blast
  qed
  with m1(2) have rh': "rung_headers m1 base L k"
    by (rule rung_headers_step)
  have "shmBufferFreeChunk cfg s sid (base + 2 ^ k) =
          Some (free_push cfg s sid (lists_of (rung base L (k + 1))) (mem s) (base + 2 ^ k))"
    unfolding shmBufferFreeChunk_def Let_def fl fm
    using cm ck k(1) kM by simp
  then show ?thesis
    unfolding m1(1) ph
    using sid a1' rh' by (simp add: na set_seg_nth set_seg_mem set_seg_length)
qed

lemma free_right_second:
  assumes g: "segment_geometry cfg sid L" and b: "base = shmBufferSegmentMmapPtr cfg sid"
    and sid: "sid < length (segments s)"
    and fl: "free_chunks (segments s ! sid) =
               lists_of ((rung base L (k + 1))(k - SHMBUF_CHUNKSZ_MIN_BIT := [base]))"
    and f1: "free_header (mem s) base k" and a2: "active_chunk (mem s) (base + 2 ^ k) k"
    and rh: "rung_headers (mem s) base L (k + 1)"
    and k: "SHMBUF_CHUNKSZ_MIN_BIT \<le> k" "k < L"
    and na: "num_actives (segments s ! sid) = 1"
  shows "\<exists>s4. shmBufferFreeChunk cfg s sid (base + 2 ^ k) = Some (Inr True, s4) \<and>
           length (segments s4) = length (segments s) \<and>
           free_chunks (segments s4 ! sid) = ladder base L L \<and>
           num_actives (segments s4 ! sid) = 0 \<and>
           free_header (mem s4) base L"
proof -
  have L: "shmbuf_segment_size cfg = 2 ^ L" "SHMBUF_CHUNKSZ_MIN_BIT \<le> L"
      "L \<le> SHMBUF_CHUNKSZ_MAX_BIT"
      "base + 2 ^ L \<le> 2 ^ 64" "segment_addr cfg sid + 440 \<le> 2 ^ 64"
    using g b by (simp_all add: segment_geometry_def)
  have k6: "6 \<le> k" using k(1) by (simp add: SHMBUF_CHUNKSZ_MIN_BIT_def)
  have kM: "k \<le> SHMBUF_CHUNKSZ_MAX_BIT" using k(2) L(3) by simp
  have od: "off_data \<le> 2 ^ k" using k6 by (rule pow_ge_off_data)
  have "(2::nat) ^ (k + 1) \<le> 2 ^ L" using k(2) by (intro power_increasing) simp_all
  then have pk: "(2::nat) ^ k + 2 ^ k \<le> 2 ^ L" by simp
  have c64: "base + 2 ^ k + 2 ^ k \<le> 2 ^ 64" using pk L(4) by linarith
  have cm: "chunk_mclass (mem s) (base + 2 ^ k) = k"
    using a2 by (simp add: active_chunk_def)
  have ck: "SHMBUF_CHUNK_CHECK_MAGIC (mem s) (base + 2 ^ k)"
    using a2 c64 by (rule active_chunk_check)
  have cb: "chunk_mclass (mem s) base = k"
    and mb: "SHMBUF_CHUNK_MAGIC_HEAD (mem s) base = SHMBUF_CHUNK_MAGIC_CODE"
    using f1 by (simp_all add: free_header_def)
  define m1 where "m1 = merge_mem (mem s) (base + 2 ^ k) base"
  have "free_merge cfg sid
          (lists_of ((rung base L (k + 1))(k - SHMBUF_CHUNKSZ_MIN_BIT := [base]))) (mem s)
          (base + 2 ^ k) =
        free_merge cfg sid
          (dlist_delete (lists_of ((rung base L (k + 1))(k - SHMBUF_CHUNKSZ_MIN_BIT := [base])))
             (base + 2 ^ k - 2 ^ k))
          (merge_mem (mem s) (base + 2 ^ k) (base + 2 ^ k - 2 ^ k)) (base + 2 ^ k - 2 ^ k)"
    using cm kM by (rule free_merge_right) (simp_all add: b [symmetric] f1)
  then have step: "free_merge cfg sid
          (lists_of ((rung base L (k + 1))(k - SHMBUF_CHUNKSZ_MIN_BIT := [base]))) (mem s)
          (base + 2 ^ k) =
        free_merge cfg sid (lists_of (rung base L (k + 1))) m1 base"
    using rung_delete_base [OF k(2) k(1), of base] by (simp add: m1_def)
  have "k + 1 < 32 + 1" using k(2) L(3) by (simp add: SHMBUF_CHUNKSZ_MAX_BIT_def)
  also have "\<dots> < (2::nat) ^ 32" by simp
  finally have jb: "k + 1 < 2 ^ 32" .
  have c1: "chunk_mclass m1 base = k + 1"
    unfolding m1_def using cb jb od by (intro merge_mem_class) simp_all
  have mg: "SHMBUF_CHUNK_MAGIC_HEAD m1 base = SHMBUF_CHUNK_MAGIC_CODE"
    unfolding m1_def using od mb by (simp add: merge_mem_magic)
  have rh': "rung_headers m1 base L (k + 1)"
    using rh
    by (rule rung_headers_frame)
       (use od in \<open>simp add: m1_def merge_mem_outside off_mclass_def off_data_def\<close>)
  obtain m' where m': "free_merge cfg sid (lists_of (rung base L (k + 1))) m1 base =
                 Some (Inr base, lists_of (\<lambda>_. []), m')"
      "chunk_mclass m' base = L"
      "SHMBUF_CHUNK_MAGIC_HEAD m' base = SHMBUF_CHUNK_MAGIC_HEAD m1 base"
    using merge_chain [OF b L(1) L(3) _ _ c1 rh'] k by auto
  have kk: "SHMBUF_CHUNKSZ_MIN_BIT \<le> chunk_mclass (mem s) (base + 2 ^ k)"
      "chunk_mclass (mem s) (base + 2 ^ k) \<le> SHMBUF_CHUNKSZ_MAX_BIT"
    using k(1) kM by (simp_all add: cm)
  have fm: "free_merge cfg sid (free_chunks (segments s ! sid)) (mem s) (base + 2 ^ k) =
              Some (Inr base, lists_of (\<lambda>_. []), m')"
    unfolding fl step by (rule m'(1))
  have mg': "SHMBUF_CHUNK_MAGIC_HEAD m' base = SHMBUF_CHUNK_MAGIC_CODE"
    using m'(3) mg by simp
  show ?thesis
    by (rule free_finish [OF L(2) L(3) L(5) sid kk ck fm m'(2) mg' na])
qed

text \<open>
  The merge of two halves does not depend on where the pair lies: for the halves \<open>p\<close>
  and \<open>p + 2 ^ k\<close> of a chunk of class \<open>k + 1\<close> anywhere in the segment, whichever of
  the two is freed while the other is on its free list, the loop goes on with the one
  chunk at \<open>p\<close>, of class \<open>k + 1\<close>, and the other half taken off its list.
\<close>

lemma and_pow_even:
  assumes "2 ^ (k + 1) dvd (x::nat)"
  shows "x AND 2 ^ k = 0"
proof -
  obtain q where q: "x = 2 ^ (k + 1) * q" using assms by (rule dvdE)
  have "x div 2 ^ k = 2 * q" unfolding q by simp
  then have "\<not> bit x k" by (simp add: bit_iff_odd)
  then show ?thesis by (simp add: and_exp_eq_0_iff_not_bit)
qed

lemma and_pow_odd:
  assumes "2 ^ (k + 1) dvd (x::nat)"
  shows "(x + 2 ^ k) AND 2 ^ k \<noteq> 0"
proof -
  obtain q where q: "x = 2 ^ (k + 1) * q" using assms by (rule dvdE)
  have "x + 2 ^ k = 2 ^ k * (2 * q + 1)" unfolding q by simp
  then have "(x + 2 ^ k) div 2 ^ k = 2 * q + 1" by simp
  then have "bit (x + 2 ^ k) k" by (simp add: bit_iff_odd)
  then show ?thesis by (simp add: and_exp_eq_0_iff_not_bit)
qed

lemma sibling_merge:
  assumes p: "shmBufferSegmentMmapPtr cfg sid \<le> p"
      "2 ^ (k + 1) dvd (p - shmBufferSegmentMmapPtr cfg sid)"
      "p + 2 ^ (k + 1) \<le> shmBufferSegmentMmapPtr cfg sid + shmbuf_segment_size cfg"
    and k: "SHMBUF_CHUNKSZ_MIN_BIT \<le> k" "k < SHMBUF_CHUNKSZ_MAX_BIT"
  shows "chunk_mclass m p = k \<Longrightarrow> free_header m (p + 2 ^ k) k \<Longrightarrow>
           free_merge cfg sid fl m p =
             free_merge cfg sid (dlist_delete fl (p + 2 ^ k)) (merge_mem m (p + 2 ^ k) p) p"
    and "chunk_mclass m (p + 2 ^ k) = k \<Longrightarrow> free_header m p k \<Longrightarrow>
           free_merge cfg sid fl m (p + 2 ^ k) =
             free_merge cfg sid (dlist_delete fl p) (merge_mem m (p + 2 ^ k) p) p"
    and "chunk_mclass m p = k \<Longrightarrow> chunk_mclass (merge_mem m (p + 2 ^ k) p) p = k + 1"
proof -
  have kM: "k \<le> SHMBUF_CHUNKSZ_MAX_BIT" using k(2) by simp
  have od: "off_data \<le> 2 ^ k"
    using k(1) by (intro pow_ge_off_data) (simp add: SHMBUF_CHUNKSZ_MIN_BIT_def)
  have e: "(p - shmBufferSegmentMmapPtr cfg sid) AND 2 ^ k = 0"
    using p(2) by (rule and_pow_even)
  have "p + 2 ^ k - shmBufferSegmentMmapPtr cfg sid = p - shmBufferSegmentMmapPtr cfg sid + 2 ^ k"
    using p(1) by simp
  then have o: "(p + 2 ^ k - shmBufferSegmentMmapPtr cfg sid) AND 2 ^ k \<noteq> 0"
    using and_pow_odd [OF p(2)] by simp
  have lt: "p + 2 ^ k < shmBufferSegmentMmapPtr cfg sid + shmbuf_segment_size cfg"
  proof -
    have "(0::nat) < 2 ^ k" by simp
    moreover have "(2::nat) ^ (k + 1) = 2 ^ k + 2 ^ k" by simp
    ultimately show ?thesis using p(3) by linarith
  qed
  show "free_merge cfg sid fl m p =
          free_merge cfg sid (dlist_delete fl (p + 2 ^ k)) (merge_mem m (p + 2 ^ k) p) p"
    if "chunk_mclass m p = k" "free_header m (p + 2 ^ k) k"
    using that(1) kM e lt that(2) by (rule free_merge_left)
  show "free_merge cfg sid fl m (p + 2 ^ k) =
          free_merge cfg sid (dlist_delete fl p) (merge_mem m (p + 2 ^ k) p) p"
    if "chunk_mclass m (p + 2 ^ k) = k" "free_header m p k"
    using free_merge_right [OF that(1) kM o, of fl] p(1) that(2) by simp
  have "k + 1 < 32 + 1" using k(2) by (simp add: SHMBUF_CHUNKSZ_MAX_BIT_def)
  also have "\<dots> < (2::nat) ^ 32" by simp
  finally have jb: "k + 1 < 2 ^ 32" .
  show "chunk_mclass (merge_mem m (p + 2 ^ k) p) p = k + 1" if "chunk_mclass m p = k"
    using that jb od by (intro merge_mem_class) simp_all
qed

lemma cfg0_geometry: "segment_geometry cfg0 0 25"
  by (simp add: segment_geometry_def cfg0_fields shmBufferSegmentMmapPtr_def segment_addr_def
        SHMBUF_CHUNKSZ_MIN_BIT_def SHMBUF_CHUNKSZ_MAX_BIT_def)

lemma one_active_fresh: "one_free_chunk cfg0 one_active 0 25"
proof -
  have p: "shmBufferSegmentMmapPtr cfg0 0 = 0x7f0000000000"
    by (simp add: shmBufferSegmentMmapPtr_def cfg0_fields)
  have m: "mem one_active =
             chunk_init_free (memset zero_memory 0x7f0000000000 0 (2 ^ 25)) 0x7f0000000000 25
               (free_chunks_addr cfg0 0 18)"
    by (simp add: one_active_def after_startup_mem)
  have h: "free_header (mem one_active) 0x7f0000000000 25"
    unfolding m
    by (rule chunk_init_free_header)
       (simp_all add: free_chunks_addr_def segment_addr_def cfg0_fields)
  show ?thesis
    unfolding one_free_chunk_def p
    using h
    by (simp add: one_active_def after_startup_free_chunks after_startup_num_actives
          num_classes_def SHMBUF_CHUNKSZ_MIN_BIT_def SHMBUF_CHUNKSZ_MAX_BIT_def)
qed

lemma one_active_segments: "0 < length (segments one_active)"
  by (simp add: one_active_def after_startup_fields)

text \<open>
  C8. Take a segment whose size is \<open>2 ^ L\<close> and that holds one free chunk of class \<open>L\<close>
  and no active chunk, and a request of \<open>n\<close> bytes whose padded size \<open>n + 44\<close> fits the
  segment. Then \<^verbatim>\<open>__shmBufferAllocChunkFromSegment\<close> returns the chunk at the base of
  the segment, and \<^verbatim>\<open>shmBufferFreeChunk\<close> on that chunk returns, reports that the
  segment has no active chunk left, and leaves the segment with one free chunk of
  class \<open>L\<close> and no active chunk again. If the class of the request is below \<open>L\<close>, a
  second allocation of \<open>n\<close> bytes returns the other half of the last split, and freeing
  the two halves, the lower one first or the upper one first, ends in both orders
  with the halves merged all the way back: the first free reports that an active chunk
  is left, the second that none is, and the segment again holds one free chunk of
  class \<open>L\<close> and no active chunk.
\<close>

theorem alloc_then_free_restores_segment:
  assumes g: "segment_geometry cfg sid L" and sid: "sid < length (segments s)"
    and f: "one_free_chunk cfg s sid L" and n: "unat n + 44 \<le> 2 ^ L"
  shows "(\<exists>s1 s2.
            shmBufferAllocChunkFromSegment cfg s sid n =
              (Inr (Some (shmBufferSegmentMmapPtr cfg sid)), s1) \<and>
            shmBufferFreeChunk cfg s1 sid (shmBufferSegmentMmapPtr cfg sid) = Some (Inr True, s2) \<and>
            one_free_chunk cfg s2 sid L) \<and>
         (request_class n < L \<longrightarrow>
          (\<exists>s1 s2.
             shmBufferAllocChunkFromSegment cfg s sid n =
               (Inr (Some (shmBufferSegmentMmapPtr cfg sid)), s1) \<and>
             shmBufferAllocChunkFromSegment cfg s1 sid n =
               (Inr (Some (shmBufferSegmentMmapPtr cfg sid + 2 ^ request_class n)), s2) \<and>
             (\<exists>s3 s4.
                shmBufferFreeChunk cfg s2 sid (shmBufferSegmentMmapPtr cfg sid) =
                  Some (Inr False, s3) \<and>
                shmBufferFreeChunk cfg s3 sid (shmBufferSegmentMmapPtr cfg sid + 2 ^ request_class n) =
                  Some (Inr True, s4) \<and>
                one_free_chunk cfg s4 sid L) \<and>
             (\<exists>s3 s4.
                shmBufferFreeChunk cfg s2 sid (shmBufferSegmentMmapPtr cfg sid + 2 ^ request_class n) =
                  Some (Inr False, s3) \<and>
                shmBufferFreeChunk cfg s3 sid (shmBufferSegmentMmapPtr cfg sid) =
                  Some (Inr True, s4) \<and>
                one_free_chunk cfg s4 sid L)))"
proof -
  define base where "base = shmBufferSegmentMmapPtr cfg sid"
  define k where "k = request_class n"
  have L: "SHMBUF_CHUNKSZ_MIN_BIT \<le> L" "L \<le> SHMBUF_CHUNKSZ_MAX_BIT"
    using g by (simp_all add: segment_geometry_def)
  have fl: "free_chunks (segments s ! sid) = ladder base L L"
    using f by (simp add: one_free_chunk_def ladder_fresh [OF L(1)] base_def)
  have h: "free_header (mem s) base L" and na: "num_actives (segments s ! sid) = 0"
    using f by (simp_all add: one_free_chunk_def base_def)
  have fresh: "one_free_chunk cfg s' sid L"
    if "free_chunks (segments s' ! sid) = ladder base L L"
      and "num_actives (segments s' ! sid) = 0" and "free_header (mem s') base L" for s'
    using that by (simp add: one_free_chunk_def ladder_fresh [OF L(1)] base_def)
  obtain s1 where s1:
      "shmBufferAllocChunkFromSegment cfg s sid n = (Inr (Some base), s1)"
      "length (segments s1) = length (segments s)"
      "free_chunks (segments s1 ! sid) = lists_of (rung base L k)"
      "num_actives (segments s1 ! sid) = num_actives (segments s ! sid) + 1"
      "active_chunk (mem s1) base k"
      "rung_headers (mem s1) base L k"
    using alloc_fresh [OF g base_def sid fl h n] unfolding k_def by blast
  have k: "SHMBUF_CHUNKSZ_MIN_BIT \<le> k" "k \<le> L"
    using request_class_le [OF n L] by (simp_all add: request_class_def k_def)
  have sid1: "sid < length (segments s1)" using sid s1(2) by simp
  have na1: "num_actives (segments s1 ! sid) = 1" using s1(4) na by simp
  obtain s2 where s2:
      "shmBufferFreeChunk cfg s1 sid base = Some (Inr True, s2)"
      "free_chunks (segments s2 ! sid) = ladder base L L"
      "num_actives (segments s2 ! sid) = 0"
      "free_header (mem s2) base L"
    using free_base [OF g base_def sid1 s1(3) s1(5) s1(6) k na1] by blast
  have one: "\<exists>s1 s2. shmBufferAllocChunkFromSegment cfg s sid n = (Inr (Some base), s1) \<and>
               shmBufferFreeChunk cfg s1 sid base = Some (Inr True, s2) \<and>
               one_free_chunk cfg s2 sid L"
    using s1(1) s2(1) fresh [OF s2(2,3,4)] by blast
  have two: "\<exists>s1 s2.
             shmBufferAllocChunkFromSegment cfg s sid n = (Inr (Some base), s1) \<and>
             shmBufferAllocChunkFromSegment cfg s1 sid n = (Inr (Some (base + 2 ^ k)), s2) \<and>
             (\<exists>s3 s4.
                shmBufferFreeChunk cfg s2 sid base = Some (Inr False, s3) \<and>
                shmBufferFreeChunk cfg s3 sid (base + 2 ^ k) = Some (Inr True, s4) \<and>
                one_free_chunk cfg s4 sid L) \<and>
             (\<exists>s3 s4.
                shmBufferFreeChunk cfg s2 sid (base + 2 ^ k) = Some (Inr False, s3) \<and>
                shmBufferFreeChunk cfg s3 sid base = Some (Inr True, s4) \<and>
                one_free_chunk cfg s4 sid L)"
    if kl: "k < L"
  proof -
    obtain t2 where t2:
        "shmBufferAllocChunkFromSegment cfg s1 sid n = (Inr (Some (base + 2 ^ k)), t2)"
        "length (segments t2) = length (segments s1)"
        "free_chunks (segments t2 ! sid) = lists_of (rung base L (k + 1))"
        "num_actives (segments t2 ! sid) = num_actives (segments s1 ! sid) + 1"
        "active_chunk (mem t2) base k"
        "active_chunk (mem t2) (base + 2 ^ k) k"
        "rung_headers (mem t2) base L (k + 1)"
      using alloc_sibling [OF g base_def sid1 s1(3) [unfolded k_def] s1(5) [unfolded k_def]
          s1(6) [unfolded k_def] kl [unfolded k_def] n]
      unfolding k_def by blast
    have sid2: "sid < length (segments t2)" using sid1 t2(2) by simp
    have na2: "num_actives (segments t2 ! sid) = 2" using t2(4) na1 by simp
    obtain u3 where u3:
        "shmBufferFreeChunk cfg t2 sid base = Some (Inr False, u3)"
        "length (segments u3) = length (segments t2)"
        "free_chunks (segments u3 ! sid) =
           lists_of ((rung base L (k + 1))(k - SHMBUF_CHUNKSZ_MIN_BIT := [base]))"
        "num_actives (segments u3 ! sid) = 1"
        "free_header (mem u3) base k"
        "active_chunk (mem u3) (base + 2 ^ k) k"
        "rung_headers (mem u3) base L (k + 1)"
      using free_left_first [OF g base_def sid2 t2(3) t2(5) t2(6) t2(7) k(1) kl na2] by blast
    have sid3: "sid < length (segments u3)" using sid2 u3(2) by simp
    obtain u4 where u4:
        "shmBufferFreeChunk cfg u3 sid (base + 2 ^ k) = Some (Inr True, u4)"
        "free_chunks (segments u4 ! sid) = ladder base L L"
        "num_actives (segments u4 ! sid) = 0"
        "free_header (mem u4) base L"
      using free_right_second [OF g base_def sid3 u3(3) u3(5) u3(6) u3(7) k(1) kl u3(4)] by blast
    obtain v3 where v3:
        "shmBufferFreeChunk cfg t2 sid (base + 2 ^ k) = Some (Inr False, v3)"
        "length (segments v3) = length (segments t2)"
        "free_chunks (segments v3 ! sid) = lists_of (rung base L k)"
        "num_actives (segments v3 ! sid) = 1"
        "active_chunk (mem v3) base k"
        "rung_headers (mem v3) base L k"
      using free_right_first [OF g base_def sid2 t2(3) t2(5) t2(6) t2(7) k(1) kl na2] by blast
    have sid3': "sid < length (segments v3)" using sid2 v3(2) by simp
    obtain v4 where v4:
        "shmBufferFreeChunk cfg v3 sid base = Some (Inr True, v4)"
        "free_chunks (segments v4 ! sid) = ladder base L L"
        "num_actives (segments v4 ! sid) = 0"
        "free_header (mem v4) base L"
      using free_base [OF g base_def sid3' v3(3) v3(5) v3(6) k v3(4)] by blast
    have o1: "\<exists>s3 s4.
                shmBufferFreeChunk cfg t2 sid base = Some (Inr False, s3) \<and>
                shmBufferFreeChunk cfg s3 sid (base + 2 ^ k) = Some (Inr True, s4) \<and>
                one_free_chunk cfg s4 sid L"
      using u3(1) u4(1) fresh [OF u4(2,3,4)] by blast
    have o2: "\<exists>s3 s4.
                shmBufferFreeChunk cfg t2 sid (base + 2 ^ k) = Some (Inr False, s3) \<and>
                shmBufferFreeChunk cfg s3 sid base = Some (Inr True, s4) \<and>
                one_free_chunk cfg s4 sid L"
      using v3(1) v4(1) fresh [OF v4(2,3,4)] by blast
    show ?thesis using s1(1) t2(1) o1 o2 by blast
  qed
  show ?thesis
    using one two unfolding base_def k_def by blast
qed

theorem alloc_then_free_restores_segment_witness:
  "segment_geometry cfg0 0 25 \<and> 0 < length (segments one_active) \<and>
   one_free_chunk cfg0 one_active 0 25 \<and> unat (50 :: 64 word) + 44 \<le> 2 ^ 25 \<and>
   request_class 50 < 25 \<and>
   (\<exists>s1 s2.
      shmBufferAllocChunkFromSegment cfg0 one_active 0 50 =
        (Inr (Some (shmBufferSegmentMmapPtr cfg0 0)), s1) \<and>
      shmBufferFreeChunk cfg0 s1 0 (shmBufferSegmentMmapPtr cfg0 0) = Some (Inr True, s2) \<and>
      one_free_chunk cfg0 s2 0 25) \<and>
   (\<exists>s1 s2.
      shmBufferAllocChunkFromSegment cfg0 one_active 0 50 =
        (Inr (Some (shmBufferSegmentMmapPtr cfg0 0)), s1) \<and>
      shmBufferAllocChunkFromSegment cfg0 s1 0 50 =
        (Inr (Some (shmBufferSegmentMmapPtr cfg0 0 + 2 ^ request_class 50)), s2) \<and>
      (\<exists>s3 s4.
         shmBufferFreeChunk cfg0 s2 0 (shmBufferSegmentMmapPtr cfg0 0) = Some (Inr False, s3) \<and>
         shmBufferFreeChunk cfg0 s3 0 (shmBufferSegmentMmapPtr cfg0 0 + 2 ^ request_class 50) =
           Some (Inr True, s4) \<and>
         one_free_chunk cfg0 s4 0 25) \<and>
      (\<exists>s3 s4.
         shmBufferFreeChunk cfg0 s2 0 (shmBufferSegmentMmapPtr cfg0 0 + 2 ^ request_class 50) =
           Some (Inr False, s3) \<and>
         shmBufferFreeChunk cfg0 s3 0 (shmBufferSegmentMmapPtr cfg0 0) = Some (Inr True, s4) \<and>
         one_free_chunk cfg0 s4 0 25))"
proof -
  have n: "unat (50 :: 64 word) + 44 \<le> 2 ^ 25" by simp
  have k: "request_class 50 < 25" by (simp add: request_class_small)
  show ?thesis
    using alloc_then_free_restores_segment [OF cfg0_geometry one_active_segments one_active_fresh n]
      cfg0_geometry one_active_segments one_active_fresh n k
    by blast
qed

end
